theory Spec2Isabelle
  imports Complex_Main "HOL-Library.AList"
begin

section \<open>Constants and data model (types/gameTypes.ts)\<close>

text \<open>
  JavaScript numbers are IEEE doubles. Every number the engine computes is an integer or a
  half-integer of small magnitude, on which double arithmetic is exact; they are modelled
  as \<open>real\<close>. The score is only ever incremented by one and compared, it is an \<open>int\<close>.
\<close>

definition GAME_WIDTH :: real where "GAME_WIDTH = 800"
definition GAME_HEIGHT :: real where "GAME_HEIGHT = 400"
definition PADDLE_WIDTH :: real where "PADDLE_WIDTH = 20"
definition PADDLE_HEIGHT :: real where "PADDLE_HEIGHT = 80"
definition BALL_SIZE :: real where "BALL_SIZE = 20"
definition BALL_SPEED :: real where "BALL_SPEED = 3"
definition PADDLE_SPEED :: real where "PADDLE_SPEED = 8"

datatype PlayerSide = Left | Right

datatype Direction = Up | Down

record Ball =
  ball_x :: real
  ball_y :: real
  ball_vx :: real
  ball_vy :: real

record Paddle =
  paddle_x :: real
  paddle_y :: real

record Player =
  pid :: string
  side :: PlayerSide
  paddle :: Paddle
  score :: int
  connected :: bool

text \<open>
  A \<open>GameRoom\<close> owns its \<open>Player\<close> objects in the map \<open>room.players\<close>, keyed by player
  id. \<open>gameState.players.left\<close> and \<open>gameState.players.right\<close> are either \<open>null\<close> or a
  reference to one of these same objects (the code only ever assigns them an object taken
  from \<open>room.players\<close>), so a mutation through either path is seen through the other. The
  model keeps the objects once, in \<open>players\<close> (an association list in the insertion order
  of the JavaScript \<open>Map\<close>), and keeps each slot as an optional reference: the key of the
  object it points to.
\<close>

record GameState =
  ball :: Ball
  players_left :: "string option"
  players_right :: "string option"
  gameActive :: bool
  winner :: "string option"

record GameRoom =
  room_id :: string
  gameState :: GameState
  players :: "(string \<times> Player) list"
  gameLoopIntervalId :: "nat option"

text \<open>
  The three private fields of the class \<open>GameManager\<close>, and the part of the environment
  its methods act on: \<open>intervals\<close> is the set of handles of the interval timers that are
  currently scheduled (\<open>setInterval\<close> adds one, \<open>clearInterval\<close> removes it).
\<close>

record GameManager =
  rooms :: "string \<rightharpoonup> GameRoom"
  waitingPlayers :: "string list"
  playerToRoom :: "string \<rightharpoonup> string"
  intervals :: "nat set"

record AddResult =
  res_roomId :: string
  res_side :: PlayerSide
  isNewGame :: bool
  waitingPlayerId :: "string option"

record RemoveResult =
  rem_roomId :: string
  disconnectedSide :: PlayerSide

definition newGameManager :: GameManager where
  "newGameManager =
     \<lparr>rooms = Map.empty, waitingPlayers = [], playerToRoom = Map.empty, intervals = {}\<rparr>"

section \<open>Helpers for the JavaScript idioms\<close>

text \<open>\<open>Math.random() > 0.5 ? 1 : -1\<close>, the random number being an input of the model.\<close>

definition randomSign :: "real \<Rightarrow> real" where
  "randomSign r = (if r > 0.5 then 1 else -1)"

text \<open>The object a slot refers to; \<open>null\<close> is \<open>None\<close>.\<close>

definition deref :: "GameRoom \<Rightarrow> string option \<Rightarrow> Player option" where
  "deref room ref = (case ref of None \<Rightarrow> None | Some k \<Rightarrow> map_of (players room) k)"

text \<open>\<open>if (room.gameLoopIntervalId) clearInterval(room.gameLoopIntervalId)\<close>\<close>

definition clearInterval :: "nat option \<Rightarrow> nat set \<Rightarrow> nat set" where
  "clearInterval h ts = (case h of None \<Rightarrow> ts | Some t \<Rightarrow> ts - {t})"

text \<open>\<open>room.gameState.players.left = player\<close> or \<open>.right = player\<close>, by \<open>player.side\<close>.\<close>

definition setSlot :: "PlayerSide \<Rightarrow> string option \<Rightarrow> GameState \<Rightarrow> GameState" where
  "setSlot sd ref gs =
     (if sd = Left then gs\<lparr>players_left := ref\<rparr> else gs\<lparr>players_right := ref\<rparr>)"

section \<open>GameManager (gameManager.ts)\<close>

definition createInitialGameState :: "real \<Rightarrow> real \<Rightarrow> GameState" where
  "createInitialGameState r1 r2 =
     \<lparr>ball = \<lparr>ball_x = GAME_WIDTH / 2, ball_y = GAME_HEIGHT / 2,
              ball_vx = BALL_SPEED * randomSign r1, ball_vy = BALL_SPEED * randomSign r2\<rparr>,
      players_left = None, players_right = None, gameActive = False, winner = None\<rparr>"

definition createPlayer :: "string \<Rightarrow> PlayerSide \<Rightarrow> Player" where
  "createPlayer playerId sd =
     (let paddleX = (if sd = Left then 20 else GAME_WIDTH - 20 - PADDLE_WIDTH)
      in \<lparr>pid = playerId, side = sd,
          paddle = \<lparr>paddle_x = paddleX, paddle_y = GAME_HEIGHT / 2 - PADDLE_HEIGHT / 2\<rparr>,
          score = 0, connected = True\<rparr>)"

text \<open>
  The room id is built from \<open>Date.now()\<close> and a random suffix; both are inputs of the
  model, as strings.
\<close>

definition newRoomId :: "string \<Rightarrow> string \<Rightarrow> string" where
  "newRoomId now sfx = ''room_'' @ now @ ''_'' @ sfx"

text \<open>
  The lookup chain at the head of \<open>addPlayer\<close>: the mapping is followed only when the room
  id is truthy (a string other than the empty one), the room exists and holds the player.
\<close>

definition existingPlayer :: "GameManager \<Rightarrow> string \<Rightarrow> (string \<times> GameRoom \<times> Player) option" where
  "existingPlayer s playerId =
     (case playerToRoom s playerId of
        None \<Rightarrow> None
      | Some existingRoomId \<Rightarrow>
          if existingRoomId = [] then None
          else (case rooms s existingRoomId of
                  None \<Rightarrow> None
                | Some room \<Rightarrow>
                    (case map_of (players room) playerId of
                       None \<Rightarrow> None
                     | Some player \<Rightarrow> Some (existingRoomId, room, player))))"

text \<open>\<open>if (existingRoomId) { ...; this.playerToRoom.delete(playerId) }\<close> when no return was taken.\<close>

definition cleanInvalidMapping :: "GameManager \<Rightarrow> string \<Rightarrow> GameManager" where
  "cleanInvalidMapping s playerId =
     (case playerToRoom s playerId of
        None \<Rightarrow> s
      | Some existingRoomId \<Rightarrow>
          if existingRoomId = [] then s
          else s\<lparr>playerToRoom := (playerToRoom s)(playerId := None)\<rparr>)"

definition addPlayer ::
  "string \<Rightarrow> string \<Rightarrow> real \<Rightarrow> real \<Rightarrow> string \<Rightarrow> GameManager \<Rightarrow> AddResult option \<times> GameManager" where
  "addPlayer now sfx r1 r2 playerId s =
     (case existingPlayer s playerId of
        Some (existingRoomId, room, player) \<Rightarrow>
          (let player' = player\<lparr>connected := True\<rparr>;
               room' = room\<lparr>players := AList.update playerId player' (players room),
                            gameState := setSlot (side player') (Some playerId) (gameState room)\<rparr>
           in (Some \<lparr>res_roomId = existingRoomId, res_side = side player',
                     isNewGame = False, waitingPlayerId = None\<rparr>,
               s\<lparr>rooms := (rooms s)(existingRoomId \<mapsto> room')\<rparr>))
      | None \<Rightarrow>
          (let s1 = cleanInvalidMapping s playerId in
           case waitingPlayers s1 of
             [] \<Rightarrow> (None, s1\<lparr>waitingPlayers := [] @ [playerId]\<rparr>)
           | waitingId # rest \<Rightarrow>
               if waitingId = playerId
               then (None, s1\<lparr>waitingPlayers := rest @ [playerId]\<rparr>)
               else
                 (let roomId = newRoomId now sfx;
                      leftPlayer = createPlayer waitingId Left;
                      rightPlayer = createPlayer playerId Right;
                      gs = (createInitialGameState r1 r2)
                             \<lparr>players_left := Some waitingId, players_right := Some playerId\<rparr>;
                      room = \<lparr>room_id = roomId, gameState = gs,
                              players = [(waitingId, leftPlayer), (playerId, rightPlayer)],
                              gameLoopIntervalId = None\<rparr>
                  in (Some \<lparr>res_roomId = roomId, res_side = Right,
                            isNewGame = True, waitingPlayerId = Some waitingId\<rparr>,
                      s1\<lparr>waitingPlayers := rest,
                         rooms := (rooms s1)(roomId \<mapsto> room),
                         playerToRoom := (playerToRoom s1)(waitingId \<mapsto> roomId, playerId \<mapsto> roomId)\<rparr>))))"

definition removePlayer :: "string \<Rightarrow> GameManager \<Rightarrow> RemoveResult option \<times> GameManager" where
  "removePlayer playerId s =
     (if playerId \<in> set (waitingPlayers s)
      then (None, s\<lparr>waitingPlayers := remove1 playerId (waitingPlayers s)\<rparr>)
      else
        (case playerToRoom s playerId of
           None \<Rightarrow> (None, s)
         | Some roomId \<Rightarrow>
             if roomId = [] then (None, s)
             else
               (case rooms s roomId of
                  None \<Rightarrow> (None, s\<lparr>playerToRoom := (playerToRoom s)(playerId := None)\<rparr>)
                | Some room \<Rightarrow>
                    (case map_of (players room) playerId of
                       None \<Rightarrow> (None, s\<lparr>playerToRoom := (playerToRoom s)(playerId := None)\<rparr>)
                     | Some player \<Rightarrow>
                         (let result = \<lparr>rem_roomId = roomId, disconnectedSide = side player\<rparr>;
                              players' = AList.update playerId (player\<lparr>connected := False\<rparr>)
                                           (players room);
                              gs = setSlot (side player) None (gameState room);
                              remainingPlayers =
                                filter (\<lambda>p. pid p \<noteq> playerId \<and> connected p) (map snd players')
                          in case remainingPlayers of
                               [] \<Rightarrow>
                                 (Some result,
                                  s\<lparr>intervals := clearInterval (gameLoopIntervalId room) (intervals s),
                                    rooms := (rooms s)(roomId := None),
                                    playerToRoom := (playerToRoom s)(playerId := None)\<rparr>)
                             | otherPlayer # _ \<Rightarrow>
                                 (let room' = room\<lparr>players := players',
                                                  gameState := gs\<lparr>gameActive := False,
                                                                  winner := Some (pid otherPlayer)\<rparr>\<rparr>
                                  in (Some result,
                                      s\<lparr>intervals := clearInterval (gameLoopIntervalId room) (intervals s),
                                        rooms := (rooms s)(roomId \<mapsto> room'),
                                        playerToRoom := (playerToRoom s)(playerId := None)\<rparr>)))))))"

definition movePaddle :: "string \<Rightarrow> Direction \<Rightarrow> GameManager \<Rightarrow> string option \<times> GameManager" where
  "movePaddle playerId direction s =
     (case playerToRoom s playerId of
        None \<Rightarrow> (None, s)
      | Some roomId \<Rightarrow>
          if roomId = [] then (None, s)
          else
            (case rooms s roomId of
               None \<Rightarrow> (None, s)
             | Some room \<Rightarrow>
                 (case map_of (players room) playerId of
                    None \<Rightarrow> (None, s)
                  | Some player \<Rightarrow>
                      if \<not> connected player then (None, s)
                      else
                        (let newY = (case direction of
                                       Up \<Rightarrow> max 0 (paddle_y (paddle player) - PADDLE_SPEED)
                                     | Down \<Rightarrow> min (GAME_HEIGHT - PADDLE_HEIGHT)
                                                  (paddle_y (paddle player) + PADDLE_SPEED));
                             player' = player\<lparr>paddle := (paddle player)\<lparr>paddle_y := newY\<rparr>\<rparr>;
                             room' = room\<lparr>players := AList.update playerId player' (players room),
                                          gameState := setSlot (side player') (Some playerId)
                                                         (gameState room)\<rparr>
                         in (Some roomId, s\<lparr>rooms := (rooms s)(roomId \<mapsto> room')\<rparr>)))))"

text \<open>A mutation of the player object stored under key \<open>k\<close>, when there is one.\<close>

definition updatePlayer :: "string \<Rightarrow> (Player \<Rightarrow> Player) \<Rightarrow> GameRoom \<Rightarrow> GameRoom" where
  "updatePlayer k f room =
     (case map_of (players room) k of
        None \<Rightarrow> room
      | Some p \<Rightarrow> room\<lparr>players := AList.update k (f p) (players room)\<rparr>)"

text \<open>\<open>resetBall\<close> draws two random numbers, and a third one in its guarded branch.\<close>

definition resetBall :: "real \<Rightarrow> real \<Rightarrow> real \<Rightarrow> GameState \<Rightarrow> GameState" where
  "resetBall r1 r2 r3 gs =
     (let newVx = BALL_SPEED * randomSign r1;
          newVy = BALL_SPEED * randomSign r2;
          newVy' = (if \<bar>newVy\<bar> < 1 / 10
                    then BALL_SPEED * (if r3 > 0.5 then 0.5 else - 0.5) else newVy)
      in gs\<lparr>ball := \<lparr>ball_x = GAME_WIDTH / 2, ball_y = GAME_HEIGHT / 2,
                      ball_vx = newVx, ball_vy = newVy'\<rparr>\<rparr>)"

definition startGame :: "real \<Rightarrow> real \<Rightarrow> real \<Rightarrow> string \<Rightarrow> GameManager \<Rightarrow> bool \<times> GameManager" where
  "startGame r1 r2 r3 roomId s =
     (case rooms s roomId of
        None \<Rightarrow> (False, s)
      | Some room \<Rightarrow>
          (case (players_left (gameState room), players_right (gameState room)) of
             (Some kl, Some kr) \<Rightarrow>
               (case (map_of (players room) kl, map_of (players room) kr) of
                  (Some leftPlayer, Some rightPlayer) \<Rightarrow>
                    if \<not> connected leftPlayer \<or> \<not> connected rightPlayer then (False, s)
                    else
                      (let room1 = room\<lparr>gameState := (gameState room)\<lparr>gameActive := True,
                                                                      winner := None\<rparr>\<rparr>;
                           room2 = updatePlayer kl (\<lambda>p. p\<lparr>score := 0\<rparr>) room1;
                           room3 = updatePlayer kr (\<lambda>p. p\<lparr>score := 0\<rparr>) room2;
                           room4 = room3\<lparr>gameState := resetBall r1 r2 r3 (gameState room3)\<rparr>
                       in (True, s\<lparr>rooms := (rooms s)(roomId \<mapsto> room4)\<rparr>))
                | _ \<Rightarrow> (False, s))
           | _ \<Rightarrow> (False, s)))"

subsection \<open>The physics step\<close>

definition moveBall :: "Ball \<Rightarrow> Ball" where
  "moveBall b = b\<lparr>ball_x := ball_x b + ball_vx b, ball_y := ball_y b + ball_vy b\<rparr>"

definition bounceWalls :: "Ball \<Rightarrow> Ball" where
  "bounceWalls b =
     (if ball_y b \<le> 0 \<or> ball_y b \<ge> GAME_HEIGHT - BALL_SIZE
      then b\<lparr>ball_vy := - ball_vy b,
             ball_y := max 0 (min (GAME_HEIGHT - BALL_SIZE) (ball_y b))\<rparr>
      else b)"

definition hitLeftPaddle :: "Paddle option \<Rightarrow> Ball \<Rightarrow> Ball" where
  "hitLeftPaddle leftPaddle b =
     (case leftPaddle of
        None \<Rightarrow> b
      | Some lp \<Rightarrow>
          if ball_vx b < 0 \<and>
             ball_x b \<le> paddle_x lp + PADDLE_WIDTH \<and>
             ball_x b + BALL_SIZE \<ge> paddle_x lp \<and>
             ball_y b + BALL_SIZE \<ge> paddle_y lp \<and>
             ball_y b \<le> paddle_y lp + PADDLE_HEIGHT
          then b\<lparr>ball_vx := - ball_vx b, ball_x := paddle_x lp + PADDLE_WIDTH\<rparr>
          else b)"

definition hitRightPaddle :: "Paddle option \<Rightarrow> Ball \<Rightarrow> Ball" where
  "hitRightPaddle rightPaddle b =
     (case rightPaddle of
        None \<Rightarrow> b
      | Some rp \<Rightarrow>
          if ball_vx b > 0 \<and>
             ball_x b + BALL_SIZE \<ge> paddle_x rp \<and>
             ball_x b \<le> paddle_x rp + PADDLE_WIDTH \<and>
             ball_y b + BALL_SIZE \<ge> paddle_y rp \<and>
             ball_y b \<le> paddle_y rp + PADDLE_HEIGHT
          then b\<lparr>ball_vx := - ball_vx b, ball_x := paddle_x rp - BALL_SIZE\<rparr>
          else b)"

text \<open>
  The body of either scoring branch of \<open>updateBall\<close>, for the slot that scores: nothing
  when the slot is \<open>null\<close>; otherwise the score goes up by one, the ball is reset, and a
  score of five or more ends the game with that player as the winner.
\<close>

definition scorePoint :: "real \<Rightarrow> real \<Rightarrow> real \<Rightarrow> string option \<Rightarrow> GameRoom \<Rightarrow> GameRoom" where
  "scorePoint r1 r2 r3 ref room =
     (case ref of
        None \<Rightarrow> room
      | Some k \<Rightarrow>
          (case map_of (players room) k of
             None \<Rightarrow> room
           | Some p \<Rightarrow>
               (let p' = p\<lparr>score := score p + 1\<rparr>;
                    room1 = room\<lparr>players := AList.update k p' (players room),
                                 gameState := resetBall r1 r2 r3 (gameState room)\<rparr>
                in if score p' \<ge> 5
                   then room1\<lparr>gameState := (gameState room1)\<lparr>winner := Some (pid p'),
                                                               gameActive := False\<rparr>\<rparr>
                   else room1)))"

definition updateBall :: "real \<Rightarrow> real \<Rightarrow> real \<Rightarrow> string \<Rightarrow> GameManager \<Rightarrow> bool \<times> GameManager" where
  "updateBall r1 r2 r3 roomId s =
     (case rooms s roomId of
        None \<Rightarrow> (False, s)
      | Some room \<Rightarrow>
          if \<not> gameActive (gameState room) then (False, s)
          else
            (let gs = gameState room;
                 leftPaddle = map_option paddle (deref room (players_left gs));
                 rightPaddle = map_option paddle (deref room (players_right gs));
                 b = hitRightPaddle rightPaddle
                       (hitLeftPaddle leftPaddle (bounceWalls (moveBall (ball gs))));
                 room1 = room\<lparr>gameState := gs\<lparr>ball := b\<rparr>\<rparr>
             in if ball_x b < 0
                then (True, s\<lparr>rooms := (rooms s)(roomId \<mapsto> scorePoint r1 r2 r3 (players_right gs) room1)\<rparr>)
                else if ball_x b > GAME_WIDTH
                then (True, s\<lparr>rooms := (rooms s)(roomId \<mapsto> scorePoint r1 r2 r3 (players_left gs) room1)\<rparr>)
                else (False, s\<lparr>rooms := (rooms s)(roomId \<mapsto> room1)\<rparr>)))"

definition bothPlayersConnected :: "string \<Rightarrow> GameManager \<Rightarrow> bool" where
  "bothPlayersConnected roomId s =
     (case rooms s roomId of
        None \<Rightarrow> False
      | Some room \<Rightarrow>
          (case (deref room (players_left (gameState room)),
                 deref room (players_right (gameState room))) of
             (Some leftPlayer, Some rightPlayer) \<Rightarrow> connected leftPlayer \<and> connected rightPlayer
           | _ \<Rightarrow> False))"

text \<open>\<open>clearAllGames\<close> clears the interval of every room, then the three fields.\<close>

definition clearAllGames :: "GameManager \<Rightarrow> GameManager" where
  "clearAllGames s =
     \<lparr>rooms = Map.empty, waitingPlayers = [], playerToRoom = Map.empty,
      intervals = intervals s - {h. \<exists>room \<in> ran (rooms s). gameLoopIntervalId room = Some h}\<rparr>"

subsection \<open>The tick loop of the server (server.ts)\<close>

text \<open>
  \<open>startGameLoop\<close> clears the room's previous interval, if any, and stores the handle
  \<open>h\<close> that \<open>setInterval\<close> returns.
\<close>

definition startGameLoop :: "nat \<Rightarrow> string \<Rightarrow> GameManager \<Rightarrow> GameManager" where
  "startGameLoop h roomId s =
     (case rooms s roomId of
        None \<Rightarrow> s
      | Some room \<Rightarrow>
          s\<lparr>intervals := insert h (clearInterval (gameLoopIntervalId room) (intervals s)),
            rooms := (rooms s)(roomId \<mapsto> room\<lparr>gameLoopIntervalId := Some h\<rparr>)\<rparr>)"

text \<open>
  \<open>n\<close> consecutive ticks on one room: \<open>n\<close> calls of \<open>updateBall\<close>, as the callback of the
  interval makes them while the game goes on; \<open>rnd i\<close> are the random numbers available to
  the call number \<open>i\<close>, counted from 0.
\<close>

fun ticks :: "(nat \<Rightarrow> real \<times> real \<times> real) \<Rightarrow> string \<Rightarrow> nat \<Rightarrow> GameManager \<Rightarrow> GameManager" where
  "ticks rnd roomId 0 s = s"
| "ticks rnd roomId (Suc n) s =
     (case rnd n of (r1, r2, r3) \<Rightarrow> snd (updateBall r1 r2 r3 roomId (ticks rnd roomId n s)))"

text \<open>A sequence of move intents, each by some player.\<close>

fun movePaddles :: "(string \<times> Direction) list \<Rightarrow> GameManager \<Rightarrow> GameManager" where
  "movePaddles [] s = s"
| "movePaddles ((playerId, direction) # ms) s = movePaddles ms (snd (movePaddle playerId direction s))"

section \<open>The states the manager can be in\<close>

text \<open>
  The sides and the slots of a game state, by side.
\<close>

fun opposite :: "PlayerSide \<Rightarrow> PlayerSide" where
  "opposite Left = Right"
| "opposite Right = Left"

fun slotOf :: "PlayerSide \<Rightarrow> GameState \<Rightarrow> string option" where
  "slotOf Left gs = players_left gs"
| "slotOf Right gs = players_right gs"

text \<open>
  What every room of the registry looks like, \<open>m\<close> being the map from player ids to
  room ids: it was created by \<open>addPlayer\<close> with two player objects under distinct ids, the
  waiting player on the left; a slot refers to its player exactly while the player is
  connected, a player is connected exactly while its id is mapped to this room, and a room
  whose players have both left is deleted.
\<close>

definition roomInv :: "(string \<rightharpoonup> string) \<Rightarrow> string \<Rightarrow> GameRoom \<Rightarrow> bool" where
  "roomInv m rid room =
     (rid \<noteq> [] \<and> room_id room = rid \<and>
      (\<exists>a pa b pb.
         players room = [(a, pa), (b, pb)] \<and> a \<noteq> b \<and>
         pid pa = a \<and> pid pb = b \<and> side pa = Left \<and> side pb = Right \<and>
         players_left (gameState room) = (if connected pa then Some a else None) \<and>
         players_right (gameState room) = (if connected pb then Some b else None) \<and>
         (connected pa \<or> connected pb) \<and>
         connected pa = (m a = Some rid) \<and>
         connected pb = (m b = Some rid)))"

text \<open>
  The invariant of the manager: at most one id waits, a waiting id is in no room, every
  room is as above, and every mapped id belongs to the room it is mapped to.
\<close>

definition managerInv :: "GameManager \<Rightarrow> bool" where
  "managerInv s =
     (length (waitingPlayers s) \<le> 1 \<and>
      (\<forall>p \<in> set (waitingPlayers s). playerToRoom s p = None) \<and>
      (\<forall>rid room. rooms s rid = Some room \<longrightarrow> roomInv (playerToRoom s) rid room) \<and>
      (\<forall>p rid. playerToRoom s p = Some rid \<longrightarrow>
         (\<exists>room. rooms s rid = Some room \<and> p \<in> fst ` set (players room))))"

text \<open>
  The player object stored under the key \<open>k\<close> in the room \<open>roomId\<close>, if there is one.
\<close>

definition playerIn :: "GameManager \<Rightarrow> string \<Rightarrow> string \<Rightarrow> Player option" where
  "playerIn s roomId k =
     (case rooms s roomId of None \<Rightarrow> None | Some room \<Rightarrow> map_of (players room) k)"

text \<open>
  The part of a room's player objects that the invariant reads.
\<close>

definition playerShape :: "(string \<times> Player) list \<Rightarrow> (string \<times> string \<times> PlayerSide \<times> bool) list" where
  "playerShape ps = map (\<lambda>(k, p). (k, pid p, side p, connected p)) ps"

text \<open>
  A game is active only in a room whose two slots are occupied.
\<close>

definition activeInv :: "GameManager \<Rightarrow> bool" where
  "activeInv s =
     (\<forall>rid room. rooms s rid = Some room \<longrightarrow> gameActive (gameState room) \<longrightarrow>
        players_left (gameState room) \<noteq> None \<and> players_right (gameState room) \<noteq> None)"

text \<open>
  In every room the ball has the base vertical speed and the paddle of a left player
  stands in the column \<open>x = 20\<close>.
\<close>

definition roomPhys :: "GameRoom \<Rightarrow> bool" where
  "roomPhys room =
     (\<bar>ball_vy (ball (gameState room))\<bar> = 3 \<and>
      (\<forall>k p. map_of (players room) k = Some p \<longrightarrow> side p = Left \<longrightarrow> paddle_x (paddle p) = 20))"

definition physInv :: "GameManager \<Rightarrow> bool" where
  "physInv s = (\<forall>rid room. rooms s rid = Some room \<longrightarrow> roomPhys room)"

text \<open>
  The states the public methods produce from a new manager. The id of a new room is made
  of the clock and a random suffix; it is taken to differ from the ids in the registry.
\<close>

inductive reachable :: "GameManager \<Rightarrow> bool" where
  initial: "reachable newGameManager"
| join: "reachable s \<Longrightarrow> rooms s (newRoomId now sfx) = None \<Longrightarrow>
         reachable (snd (addPlayer now sfx r1 r2 p s))"
| leave: "reachable s \<Longrightarrow> reachable (snd (removePlayer p s))"
| move: "reachable s \<Longrightarrow> reachable (snd (movePaddle p d s))"
| start: "reachable s \<Longrightarrow> reachable (snd (startGame r1 r2 r3 rid s))"
| tick: "reachable s \<Longrightarrow> reachable (snd (updateBall r1 r2 r3 rid s))"
| loop: "reachable s \<Longrightarrow> reachable (startGameLoop h rid s)"
| clear: "reachable s \<Longrightarrow> reachable (clearAllGames s)"

section \<open>Example states\<close>

text \<open>
  \<open>demoMatch\<close>: two players were paired. \<open>demoPlaying\<close>: the server then started the game
  and its tick loop, with the interval handle \<open>7\<close>. \<open>demoRandom\<close>: random numbers for the
  ticks.
\<close>

definition demoMatch :: GameManager where
  "demoMatch =
     snd (addPlayer ''1700000000123'' ''k3x9q2m1z'' 0.7 0.2 ''bob''
       (snd (addPlayer ''1700000000007'' ''abcdefghi'' 0.1 0.9 ''alice'' newGameManager)))"

definition demoRoomId :: string where
  "demoRoomId = ''room_1700000000123_k3x9q2m1z''"

definition demoRoom :: GameRoom where
  "demoRoom =
     \<lparr>room_id = demoRoomId,
      gameState = \<lparr>ball = \<lparr>ball_x = 400, ball_y = 200, ball_vx = - 3, ball_vy = 3\<rparr>,
                   players_left = Some ''alice'', players_right = Some ''bob'',
                   gameActive = True, winner = None\<rparr>,
      players = [(''alice'', createPlayer ''alice'' Left), (''bob'', createPlayer ''bob'' Right)],
      gameLoopIntervalId = Some 7\<rparr>"

definition demoPlaying :: GameManager where
  "demoPlaying =
     \<lparr>rooms = [demoRoomId \<mapsto> demoRoom], waitingPlayers = [],
      playerToRoom = [''alice'' \<mapsto> demoRoomId, ''bob'' \<mapsto> demoRoomId],
      intervals = {7}\<rparr>"

definition demoRandom :: "nat \<Rightarrow> real \<times> real \<times> real" where
  "demoRandom i = (0.9, 0.9, 0.9)"

text \<open>
  Variants: a third player waits; a mapping points to a room that is gone; the right
  player is one point from winning and the ball is about to leave on the left; the left
  player has moved the paddle up eleven times, to the height 72.
\<close>

definition demoQueued :: GameManager where
  "demoQueued = demoPlaying\<lparr>waitingPlayers := [''carol'']\<rparr>"

definition demoStale :: GameManager where
  "demoStale = newGameManager\<lparr>playerToRoom := [''dave'' \<mapsto> ''room_gone'']\<rparr>"

definition demoMatchPoint :: GameManager where
  "demoMatchPoint =
     demoPlaying\<lparr>rooms := [demoRoomId \<mapsto>
        demoRoom\<lparr>gameState := (gameState demoRoom)
                    \<lparr>ball := \<lparr>ball_x = 1, ball_y = 200, ball_vx = - 3, ball_vy = 3\<rparr>\<rparr>,
                 players := [(''alice'', createPlayer ''alice'' Left),
                             (''bob'', (createPlayer ''bob'' Right)\<lparr>score := 4\<rparr>)]\<rparr>]\<rparr>"

definition demoClearRoom :: GameRoom where
  "demoClearRoom =
     demoRoom\<lparr>players := [(''alice'', (createPlayer ''alice'' Left)
                                         \<lparr>paddle := \<lparr>paddle_x = 20, paddle_y = 72\<rparr>\<rparr>),
                           (''bob'', createPlayer ''bob'' Right)]\<rparr>"

definition demoClearPath :: GameManager where
  "demoClearPath = demoPlaying\<lparr>rooms := [demoRoomId \<mapsto> demoClearRoom]\<rparr>"

lemmas game_consts = GAME_WIDTH_def GAME_HEIGHT_def PADDLE_WIDTH_def PADDLE_HEIGHT_def
  BALL_SIZE_def BALL_SPEED_def PADDLE_SPEED_def

lemmas manager_defs = addPlayer_def existingPlayer_def cleanInvalidMapping_def createPlayer_def
  createInitialGameState_def newRoomId_def newGameManager_def randomSign_def setSlot_def
  removePlayer_def movePaddle_def clearInterval_def startGameLoop_def startGame_def
  updatePlayer_def resetBall_def deref_def bothPlayersConnected_def

lemmas demo_defs = demoPlaying_def demoRoom_def demoRoomId_def

section \<open>Basic facts\<close>

lemma newRoomId_nonempty: "newRoomId now sfx \<noteq> []"
  by (simp add: newRoomId_def)

lemma map_of_update_cases:
  "map_of (AList.update k v ps) k' = (if k' = k then Some v else map_of ps k')"
  by (simp add: update_conv')

lemma existingPlayer_SomeD:
  assumes "existingPlayer s p = Some (rid, room, pl)"
  shows "playerToRoom s p = Some rid \<and> rid \<noteq> [] \<and> rooms s rid = Some room \<and>
         map_of (players room) p = Some pl"
  using assms by (auto simp: existingPlayer_def split: option.splits if_splits)

lemma resetBall_frame:
  "players_left (resetBall r1 r2 r3 gs) = players_left gs"
  "players_right (resetBall r1 r2 r3 gs) = players_right gs"
  "gameActive (resetBall r1 r2 r3 gs) = gameActive gs"
  "winner (resetBall r1 r2 r3 gs) = winner gs"
  by (simp_all add: resetBall_def Let_def)

lemma resetBall_ball:
  "ball_x (ball (resetBall r1 r2 r3 gs)) = 400"
  "ball_y (ball (resetBall r1 r2 r3 gs)) = 200"
  "\<bar>ball_vx (ball (resetBall r1 r2 r3 gs))\<bar> = 3"
  "\<bar>ball_vy (ball (resetBall r1 r2 r3 gs))\<bar> = 3"
  by (simp_all add: resetBall_def Let_def game_consts randomSign_def)

lemma updatePlayer_frame:
  "room_id (updatePlayer k f room) = room_id room"
  "gameState (updatePlayer k f room) = gameState room"
  by (simp_all add: updatePlayer_def split: option.splits)

lemma scorePoint_null:
  assumes "deref room ref = None"
  shows "scorePoint r1 r2 r3 ref room = room"
  using assms by (auto simp: scorePoint_def deref_def split: option.splits)

lemma scorePoint_player:
  assumes "ref = Some k" "map_of (players room) k = Some p"
  shows "scorePoint r1 r2 r3 ref room =
           room\<lparr>players := AList.update k (p\<lparr>score := score p + 1\<rparr>) (players room),
                gameState := (resetBall r1 r2 r3 (gameState room))
                   \<lparr>winner := (if score p + 1 \<ge> 5 then Some (pid p) else winner (gameState room)),
                    gameActive := (if score p + 1 \<ge> 5 then False else gameActive (gameState room))\<rparr>\<rparr>"
  using assms by (simp add: scorePoint_def Let_def resetBall_def)

section \<open>The invariant holds in every reachable state\<close>

lemma managerInv_roomD:
  assumes "managerInv s" "rooms s rid = Some room"
  obtains a pa b pb where
    "rid \<noteq> []" "room_id room = rid"
    "players room = [(a, pa), (b, pb)]" "a \<noteq> b"
    "pid pa = a" "pid pb = b" "side pa = Left" "side pb = Right"
    "players_left (gameState room) = (if connected pa then Some a else None)"
    "players_right (gameState room) = (if connected pb then Some b else None)"
    "connected pa \<or> connected pb"
    "connected pa = (playerToRoom s a = Some rid)"
    "connected pb = (playerToRoom s b = Some rid)"
  using assms unfolding managerInv_def roomInv_def by blast

lemma managerInv_queuedD:
  "managerInv s \<Longrightarrow> p \<in> set (waitingPlayers s) \<Longrightarrow> playerToRoom s p = None"
  unfolding managerInv_def by blast

lemma managerInv_queue_cases:
  assumes "managerInv s"
  shows "waitingPlayers s = [] \<or> (\<exists>w. waitingPlayers s = [w])"
  using assms unfolding managerInv_def
  by (cases "waitingPlayers s") (auto simp: length_Suc_conv)

lemma managerInv_mappedD:
  assumes "managerInv s" "playerToRoom s p = Some rid"
  obtains room pl where "rid \<noteq> []" "rooms s rid = Some room" "map_of (players room) p = Some pl"
    "connected pl" "slotOf (side pl) (gameState room) = Some p"
    "AList.update p pl (players room) = players room"
proof -
  from assms obtain room where room: "rooms s rid = Some room" and key: "p \<in> fst ` set (players room)"
    unfolding managerInv_def by blast
  from assms(1) room obtain a pa b pb where r:
    "rid \<noteq> []"
    "players room = [(a, pa), (b, pb)]" "a \<noteq> b"
    "side pa = Left" "side pb = Right"
    "players_left (gameState room) = (if connected pa then Some a else None)"
    "players_right (gameState room) = (if connected pb then Some b else None)"
    "connected pa = (playerToRoom s a = Some rid)"
    "connected pb = (playerToRoom s b = Some rid)"
    by (rule managerInv_roomD)
  from key r have "p = a \<or> p = b" by auto
  then show thesis
  proof
    assume "p = a"
    with r assms(2) room show thesis by (intro that [of room pa]) auto
  next
    assume "p = b"
    with r assms(2) room show thesis by (intro that [of room pb]) auto
  qed
qed

lemma managerInv_connected_slot:
  assumes "managerInv s" "rooms s rid = Some room" "map_of (players room) p = Some pl" "connected pl"
  shows "slotOf (side pl) (gameState room) = Some p \<and> playerToRoom s p = Some rid \<and> rid \<noteq> []"
proof -
  from assms(1,2) obtain a pa b pb where r:
    "rid \<noteq> []"
    "players room = [(a, pa), (b, pb)]" "a \<noteq> b"
    "side pa = Left" "side pb = Right"
    "players_left (gameState room) = (if connected pa then Some a else None)"
    "players_right (gameState room) = (if connected pb then Some b else None)"
    "connected pa = (playerToRoom s a = Some rid)"
    "connected pb = (playerToRoom s b = Some rid)"
    by (rule managerInv_roomD)
  from assms(3) r(2) have "p = a \<and> pl = pa \<or> p = b \<and> pl = pb" by (auto split: if_splits)
  with r assms(4) show ?thesis by auto
qed

lemma existingPlayer_None_unmapped:
  assumes "managerInv s" "existingPlayer s p = None"
  shows "playerToRoom s p = None"
proof (cases "playerToRoom s p")
  case None
  then show ?thesis .
next
  case (Some rid)
  from managerInv_mappedD [OF assms(1) Some] obtain room pl where
    "rid \<noteq> []" "rooms s rid = Some room" "map_of (players room) p = Some pl" by blast
  with Some assms(2) show ?thesis by (simp add: existingPlayer_def)
qed

lemma addPlayer_rejoin_unchanged:
  assumes inv: "managerInv s" and ex: "existingPlayer s p = Some (rid, room, pl)"
  shows "addPlayer now sfx r1 r2 p s =
           (Some \<lparr>res_roomId = rid, res_side = side pl, isNewGame = False, waitingPlayerId = None\<rparr>, s)"
proof -
  from existingPlayer_SomeD [OF ex] have m: "playerToRoom s p = Some rid"
    and room: "rooms s rid = Some room" and pl: "map_of (players room) p = Some pl" by auto
  from managerInv_mappedD [OF inv m] obtain room0 pl0 where
    f: "rooms s rid = Some room0" "map_of (players room0) p = Some pl0" "connected pl0"
       "slotOf (side pl0) (gameState room0) = Some p"
       "AList.update p pl0 (players room0) = players room0" by blast
  with room pl have eq: "room0 = room" "pl0 = pl" by auto
  have c: "pl\<lparr>connected := True\<rparr> = pl" using f(3) eq by simp
  have g: "setSlot (side pl) (Some p) (gameState room) = gameState room"
    using f(4) eq by (cases "side pl") (auto simp: setSlot_def)
  have "(rooms s)(rid \<mapsto> room) = rooms s" using room by (simp add: fun_upd_idem)
  then show ?thesis
    using ex f(5) eq c g by (simp add: addPlayer_def)
qed

lemma managerInv_new: "managerInv newGameManager"
  by (simp add: managerInv_def newGameManager_def)

lemma managerInv_intervals:
  "managerInv (s\<lparr>intervals := ts\<rparr>) = managerInv s"
  by (simp add: managerInv_def)

lemma managerInv_queue_update:
  assumes inv: "managerInv s" and un: "\<forall>x \<in> set q. playerToRoom s x = None" and len: "length q \<le> 1"
  shows "managerInv (s\<lparr>waitingPlayers := q\<rparr>)"
  using assms unfolding managerInv_def by simp

lemma roomInv_other_mapping:
  assumes "roomInv m rid room" "m w = None" "m p = None" "rid' \<noteq> rid"
  shows "roomInv (m(w \<mapsto> rid', p \<mapsto> rid')) rid room"
proof -
  from assms(1) obtain a pa b pb where r:
    "rid \<noteq> []" "room_id room = rid"
    "players room = [(a, pa), (b, pb)]" "a \<noteq> b"
    "pid pa = a" "pid pb = b" "side pa = Left" "side pb = Right"
    "players_left (gameState room) = (if connected pa then Some a else None)"
    "players_right (gameState room) = (if connected pb then Some b else None)"
    "connected pa \<or> connected pb"
    "connected pa = (m a = Some rid)"
    "connected pb = (m b = Some rid)"
    unfolding roomInv_def by blast
  have "connected pa = ((m(w \<mapsto> rid', p \<mapsto> rid')) a = Some rid)"
    using r(12) assms(2-4) by auto
  moreover have "connected pb = ((m(w \<mapsto> rid', p \<mapsto> rid')) b = Some rid)"
    using r(13) assms(2-4) by auto
  ultimately show ?thesis
    unfolding roomInv_def using r(1-11) by blast
qed

lemma addPlayer_preserves_inv:
  assumes inv: "managerInv s" and fresh: "rooms s (newRoomId now sfx) = None"
  shows "managerInv (snd (addPlayer now sfx r1 r2 p s))"
proof (cases "existingPlayer s p")
  case (Some t)
  then obtain rid room pl where t: "existingPlayer s p = Some (rid, room, pl)"
    by (cases t) auto
  from addPlayer_rejoin_unchanged [OF inv t] inv show ?thesis by simp
next
  case None
  then have un: "playerToRoom s p = None" by (rule existingPlayer_None_unmapped [OF inv])
  then have clean: "cleanInvalidMapping s p = s" by (simp add: cleanInvalidMapping_def)
  from managerInv_queue_cases [OF inv] show ?thesis
  proof (elim disjE exE)
    assume q: "waitingPlayers s = []"
    have "snd (addPlayer now sfx r1 r2 p s) = s\<lparr>waitingPlayers := [p]\<rparr>"
      using q None clean by (simp add: addPlayer_def)
    moreover have "managerInv (s\<lparr>waitingPlayers := [p]\<rparr>)"
      using un by (intro managerInv_queue_update [OF inv]) simp_all
    ultimately show ?thesis by simp
  next
    fix w assume q: "waitingPlayers s = [w]"
    show ?thesis
    proof (cases "w = p")
      case True
      have "snd (addPlayer now sfx r1 r2 p s) = s\<lparr>waitingPlayers := [p]\<rparr>"
        using q True None clean by (simp add: addPlayer_def)
      moreover have "managerInv (s\<lparr>waitingPlayers := [p]\<rparr>)"
        using un by (intro managerInv_queue_update [OF inv]) simp_all
      ultimately show ?thesis by simp
    next
      case False
      let ?rid = "newRoomId now sfx"
      have wun: "playerToRoom s w = None"
        using managerInv_queuedD [OF inv] q by simp
      let ?m = "(playerToRoom s)(w \<mapsto> ?rid, p \<mapsto> ?rid)"
      let ?room = "\<lparr>room_id = ?rid,
                     gameState = (createInitialGameState r1 r2)
                        \<lparr>players_left := Some w, players_right := Some p\<rparr>,
                     players = [(w, createPlayer w Left), (p, createPlayer p Right)],
                     gameLoopIntervalId = None\<rparr>"
      let ?s' = "s\<lparr>waitingPlayers := [], rooms := (rooms s)(?rid \<mapsto> ?room), playerToRoom := ?m\<rparr>"
      have res: "snd (addPlayer now sfx r1 r2 p s) = ?s'"
        using q False None clean by (simp add: addPlayer_def Let_def)
      have new: "roomInv ?m ?rid ?room"
        using False newRoomId_nonempty [of now sfx]
        by (simp add: roomInv_def createPlayer_def)
      have i3: "roomInv ?m rid room" if r: "rooms ?s' rid = Some room" for rid room
      proof (cases "rid = ?rid")
        case True
        with r new show ?thesis by simp
      next
        case ne: False
        with r have r0: "rooms s rid = Some room" by simp
        with inv have "roomInv (playerToRoom s) rid room"
          unfolding managerInv_def by blast
        then show ?thesis
          using wun un ne by (intro roomInv_other_mapping) auto
      qed
      have i4: "\<exists>room. rooms ?s' rid = Some room \<and> x \<in> fst ` set (players room)"
        if m: "?m x = Some rid" for x rid
      proof (cases "x = w \<or> x = p")
        case True
        with m have "rid = ?rid" by (auto split: if_splits)
        with True show ?thesis by auto
      next
        case nx: False
        with m have m0: "playerToRoom s x = Some rid" by simp
        with inv obtain room where r0: "rooms s rid = Some room" "x \<in> fst ` set (players room)"
          unfolding managerInv_def by blast
        with fresh have "rid \<noteq> ?rid" by auto
        with r0 show ?thesis by auto
      qed
      have "managerInv ?s'"
        unfolding managerInv_def using i3 i4 by simp
      with res show ?thesis by simp
    qed
  qed
qed

lemma roomInv_unmap_other:
  assumes "roomInv m rid2 room2" "m p = Some rid" "rid \<noteq> rid2"
  shows "roomInv (m(p := None)) rid2 room2"
proof -
  from assms(1) obtain a pa b pb where r:
    "rid2 \<noteq> []" "room_id room2 = rid2"
    "players room2 = [(a, pa), (b, pb)]" "a \<noteq> b"
    "pid pa = a" "pid pb = b" "side pa = Left" "side pb = Right"
    "players_left (gameState room2) = (if connected pa then Some a else None)"
    "players_right (gameState room2) = (if connected pb then Some b else None)"
    "connected pa \<or> connected pb"
    "connected pa = (m a = Some rid2)"
    "connected pb = (m b = Some rid2)"
    unfolding roomInv_def by blast
  have "connected pa = ((m(p := None)) a = Some rid2)"
    using r(12) assms(2,3) by auto
  moreover have "connected pb = ((m(p := None)) b = Some rid2)"
    using r(13) assms(2,3) by auto
  ultimately show ?thesis
    unfolding roomInv_def using r(1-11) by blast
qed

lemma removePlayer_preserves_inv:
  assumes inv: "managerInv s"
  shows "managerInv (snd (removePlayer p s))"
proof (cases "p \<in> set (waitingPlayers s)")
  case True
  with managerInv_queue_cases [OF inv] have q: "waitingPlayers s = [p]" by auto
  then have "snd (removePlayer p s) = s\<lparr>waitingPlayers := []\<rparr>"
    by (simp add: removePlayer_def)
  moreover have "managerInv (s\<lparr>waitingPlayers := []\<rparr>)"
    by (intro managerInv_queue_update [OF inv]) simp_all
  ultimately show ?thesis by simp
next
  case notq: False
  show ?thesis
  proof (cases "playerToRoom s p")
    case None
    with notq have "snd (removePlayer p s) = s" by (simp add: removePlayer_def)
    with inv show ?thesis by simp
  next
    case (Some rid)
    from managerInv_mappedD [OF inv Some] obtain room pl where
      f: "rid \<noteq> []" "rooms s rid = Some room" "map_of (players room) p = Some pl" by blast
    from inv f(2) obtain a pa b pb where r:
      "room_id room = rid"
      "players room = [(a, pa), (b, pb)]" "a \<noteq> b"
      "pid pa = a" "pid pb = b" "side pa = Left" "side pb = Right"
      "players_left (gameState room) = (if connected pa then Some a else None)"
      "players_right (gameState room) = (if connected pb then Some b else None)"
      "connected pa = (playerToRoom s a = Some rid)"
      "connected pb = (playerToRoom s b = Some rid)"
      by (rule managerInv_roomD)
    let ?m = "(playerToRoom s)(p := None)"
    let ?ts = "clearInterval (gameLoopIntervalId room) (intervals s)"
    have others: "roomInv ?m rid2 room2" if "rooms s rid2 = Some room2" "rid2 \<noteq> rid" for rid2 room2
    proof -
      from inv that(1) have "roomInv (playerToRoom s) rid2 room2"
        unfolding managerInv_def by blast
      then show ?thesis using Some that(2) by (intro roomInv_unmap_other [of _ _ _ _ rid]) auto
    qed
    have q': "\<forall>x \<in> set (waitingPlayers s). ?m x = None"
      using managerInv_queuedD [OF inv] by simp
    have len: "length (waitingPlayers s) \<le> 1"
      using inv unfolding managerInv_def by simp
    have mappedOld: "\<exists>room. rooms s r = Some room \<and> x \<in> fst ` set (players room)"
      if "playerToRoom s x = Some r" for x r
      using inv that unfolding managerInv_def by blast
    from f(3) r(2) have "p = a \<and> pl = pa \<or> p = b \<and> pl = pb" by (auto split: if_splits)
    then consider
        (a_last) "p = a" "pl = pa" "\<not> connected pb"
      | (a_forfeit) "p = a" "pl = pa" "connected pb"
      | (b_last) "p = b" "pl = pb" "\<not> connected pa"
      | (b_forfeit) "p = b" "pl = pb" "connected pa"
      by blast
    then show ?thesis
    proof cases
      case a_last
      let ?s' = "s\<lparr>intervals := ?ts, rooms := (rooms s)(rid := None), playerToRoom := ?m\<rparr>"
      have res: "snd (removePlayer p s) = ?s'"
        using notq Some f r a_last by (simp add: removePlayer_def Let_def)
      have i3: "\<forall>rid2 room2. rooms ?s' rid2 = Some room2 \<longrightarrow> roomInv (playerToRoom ?s') rid2 room2"
        using others by (simp split: if_splits)
      have i4: "\<exists>room. rooms ?s' r = Some room \<and> x \<in> fst ` set (players room)"
        if m: "?m x = Some r" for x r
      proof -
        from m have xp: "x \<noteq> p" and m0: "playerToRoom s x = Some r" by (auto split: if_splits)
        from mappedOld [OF m0] obtain room0 where
          r0: "rooms s r = Some room0" "x \<in> fst ` set (players room0)" by blast
        have "r \<noteq> rid"
        proof
          assume "r = rid"
          with r0 f(2) r(2) xp a_last have "x = b" by auto
          with m0 \<open>r = rid\<close> r(11) a_last show False by simp
        qed
        with r0 show ?thesis by auto
      qed
      have "managerInv ?s'"
        unfolding managerInv_def using i3 i4 q' len by simp
      with res show ?thesis by simp
    next
      case b_last
      let ?s' = "s\<lparr>intervals := ?ts, rooms := (rooms s)(rid := None), playerToRoom := ?m\<rparr>"
      have res: "snd (removePlayer p s) = ?s'"
        using notq Some f r b_last by (simp add: removePlayer_def Let_def)
      have i3: "\<forall>rid2 room2. rooms ?s' rid2 = Some room2 \<longrightarrow> roomInv (playerToRoom ?s') rid2 room2"
        using others by (simp split: if_splits)
      have i4: "\<exists>room. rooms ?s' r = Some room \<and> x \<in> fst ` set (players room)"
        if m: "?m x = Some r" for x r
      proof -
        from m have xp: "x \<noteq> p" and m0: "playerToRoom s x = Some r" by (auto split: if_splits)
        from mappedOld [OF m0] obtain room0 where
          r0: "rooms s r = Some room0" "x \<in> fst ` set (players room0)" by blast
        have "r \<noteq> rid"
        proof
          assume "r = rid"
          with r0 f(2) r(2) xp b_last have "x = a" by auto
          with m0 \<open>r = rid\<close> r(10) b_last show False by simp
        qed
        with r0 show ?thesis by auto
      qed
      have "managerInv ?s'"
        unfolding managerInv_def using i3 i4 q' len by simp
      with res show ?thesis by simp
    next
      case a_forfeit
      let ?room' = "room\<lparr>players := [(a, pa\<lparr>connected := False\<rparr>), (b, pb)],
                         gameState := (gameState room)\<lparr>players_left := None,
                                          gameActive := False, winner := Some b\<rparr>\<rparr>"
      let ?s' = "s\<lparr>intervals := ?ts, rooms := (rooms s)(rid \<mapsto> ?room'), playerToRoom := ?m\<rparr>"
      have res: "snd (removePlayer p s) = ?s'"
        using notq Some f r a_forfeit by (simp add: removePlayer_def Let_def setSlot_def)
      have new: "roomInv ?m rid ?room'"
        using f(1) r a_forfeit by (simp add: roomInv_def)
      have i3: "\<forall>rid2 room2. rooms ?s' rid2 = Some room2 \<longrightarrow> roomInv (playerToRoom ?s') rid2 room2"
        using others new by (simp split: if_splits)
      have i4: "\<exists>room. rooms ?s' r = Some room \<and> x \<in> fst ` set (players room)"
        if m: "?m x = Some r" for x r
      proof -
        from m have m0: "playerToRoom s x = Some r" by (auto split: if_splits)
        from mappedOld [OF m0] obtain room0 where
          r0: "rooms s r = Some room0" "x \<in> fst ` set (players room0)" by blast
        show ?thesis
        proof (cases "r = rid")
          case True
          with r0 f(2) r(2) show ?thesis by auto
        next
          case False
          with r0 show ?thesis by auto
        qed
      qed
      have "managerInv ?s'"
        unfolding managerInv_def using i3 i4 q' len by simp
      with res show ?thesis by simp
    next
      case b_forfeit
      let ?room' = "room\<lparr>players := [(a, pa), (b, pb\<lparr>connected := False\<rparr>)],
                         gameState := (gameState room)\<lparr>players_right := None,
                                          gameActive := False, winner := Some a\<rparr>\<rparr>"
      let ?s' = "s\<lparr>intervals := ?ts, rooms := (rooms s)(rid \<mapsto> ?room'), playerToRoom := ?m\<rparr>"
      have res: "snd (removePlayer p s) = ?s'"
        using notq Some f r b_forfeit by (simp add: removePlayer_def Let_def setSlot_def)
      have new: "roomInv ?m rid ?room'"
        using f(1) r b_forfeit by (simp add: roomInv_def)
      have i3: "\<forall>rid2 room2. rooms ?s' rid2 = Some room2 \<longrightarrow> roomInv (playerToRoom ?s') rid2 room2"
        using others new by (simp split: if_splits)
      have i4: "\<exists>room. rooms ?s' r = Some room \<and> x \<in> fst ` set (players room)"
        if m: "?m x = Some r" for x r
      proof -
        from m have m0: "playerToRoom s x = Some r" by (auto split: if_splits)
        from mappedOld [OF m0] obtain room0 where
          r0: "rooms s r = Some room0" "x \<in> fst ` set (players room0)" by blast
        show ?thesis
        proof (cases "r = rid")
          case True
          with r0 f(2) r(2) show ?thesis by auto
        next
          case False
          with r0 show ?thesis by auto
        qed
      qed
      have "managerInv ?s'"
        unfolding managerInv_def using i3 i4 q' len by simp
      with res show ?thesis by simp
    qed
  qed
qed

lemma playerShape_update:
  assumes "map_of ps k = Some p" "pid p' = pid p" "side p' = side p" "connected p' = connected p"
  shows "playerShape (AList.update k p' ps) = playerShape ps"
  using assms by (induction ps) (auto simp: playerShape_def)

lemma playerShape_keys: "playerShape ps' = playerShape ps \<Longrightarrow> map fst ps' = map fst ps"
proof -
  assume "playerShape ps' = playerShape ps"
  then have "map fst (playerShape ps') = map fst (playerShape ps)" by simp
  then show ?thesis by (simp add: playerShape_def case_prod_unfold comp_def)
qed

lemma playerShape_updatePlayer:
  assumes "\<And>p. pid (f p) = pid p \<and> side (f p) = side p \<and> connected (f p) = connected p"
  shows "playerShape (players (updatePlayer k f room)) = playerShape (players room)"
proof (cases "map_of (players room) k")
  case None
  then show ?thesis by (simp add: updatePlayer_def)
next
  case (Some p)
  then show ?thesis using assms by (simp add: updatePlayer_def playerShape_update)
qed

lemma roomInv_same_shape:
  assumes inv: "roomInv m rid room"
    and id: "room_id room' = room_id room"
    and shape: "playerShape (players room') = playerShape (players room)"
    and left: "players_left (gameState room') = players_left (gameState room)"
    and right: "players_right (gameState room') = players_right (gameState room)"
  shows "roomInv m rid room'"
proof -
  from inv obtain a pa b pb where r:
    "rid \<noteq> []" "room_id room = rid"
    "players room = [(a, pa), (b, pb)]" "a \<noteq> b"
    "pid pa = a" "pid pb = b" "side pa = Left" "side pb = Right"
    "players_left (gameState room) = (if connected pa then Some a else None)"
    "players_right (gameState room) = (if connected pb then Some b else None)"
    "connected pa \<or> connected pb"
    "connected pa = (m a = Some rid)"
    "connected pb = (m b = Some rid)"
    unfolding roomInv_def by blast
  from shape r(3) obtain pa' pb' where p':
    "players room' = [(a, pa'), (b, pb')]"
    "pid pa' = pid pa" "side pa' = side pa" "connected pa' = connected pa"
    "pid pb' = pid pb" "side pb' = side pb" "connected pb' = connected pb"
    by (auto simp: playerShape_def)
  show ?thesis
    unfolding roomInv_def using r p' id left right by simp
qed

lemma managerInv_room_update:
  assumes inv: "managerInv s" and room: "rooms s rid = Some room"
    and new: "roomInv (playerToRoom s) rid room'"
    and keys: "map fst (players room') = map fst (players room)"
  shows "managerInv (s\<lparr>rooms := (rooms s)(rid \<mapsto> room')\<rparr>)"
proof -
  let ?s' = "s\<lparr>rooms := (rooms s)(rid \<mapsto> room')\<rparr>"
  have i3: "\<forall>rid2 room2. rooms ?s' rid2 = Some room2 \<longrightarrow> roomInv (playerToRoom ?s') rid2 room2"
    using inv new unfolding managerInv_def by (simp split: if_splits)
  have ks: "fst ` set (players room') = fst ` set (players room)"
  proof -
    have "set (map fst (players room')) = set (map fst (players room))" using keys by simp
    then show ?thesis by simp
  qed
  have i4: "\<exists>room. rooms ?s' r = Some room \<and> x \<in> fst ` set (players room)"
    if m: "playerToRoom s x = Some r" for x r
  proof -
    from inv m obtain room0 where
      r0: "rooms s r = Some room0" "x \<in> fst ` set (players room0)"
      unfolding managerInv_def by blast
    show ?thesis
    proof (cases "r = rid")
      case True
      with r0 room ks show ?thesis by auto
    next
      case False
      with r0 show ?thesis by auto
    qed
  qed
  have q: "length (waitingPlayers s) \<le> 1" "\<forall>p \<in> set (waitingPlayers s). playerToRoom s p = None"
    using inv unfolding managerInv_def by auto
  show ?thesis
    unfolding managerInv_def using i3 i4 q by simp
qed

lemma managerInv_same_shape_update:
  assumes inv: "managerInv s" and room: "rooms s rid = Some room"
    and id: "room_id room' = room_id room"
    and shape: "playerShape (players room') = playerShape (players room)"
    and left: "players_left (gameState room') = players_left (gameState room)"
    and right: "players_right (gameState room') = players_right (gameState room)"
  shows "managerInv (s\<lparr>rooms := (rooms s)(rid \<mapsto> room')\<rparr>)"
proof -
  from inv room have "roomInv (playerToRoom s) rid room"
    unfolding managerInv_def by blast
  then have "roomInv (playerToRoom s) rid room'"
    using id shape left right by (rule roomInv_same_shape)
  then show ?thesis
    using playerShape_keys [OF shape] by (intro managerInv_room_update [OF inv room])
qed

lemma movePaddle_result:
  "movePaddle p d s = (None, s) \<or>
   (\<exists>rid room pl y.
      playerToRoom s p = Some rid \<and> rid \<noteq> [] \<and> rooms s rid = Some room \<and>
      map_of (players room) p = Some pl \<and> connected pl \<and>
      movePaddle p d s =
        (Some rid, s\<lparr>rooms := (rooms s)(rid \<mapsto>
            room\<lparr>players := AList.update p (pl\<lparr>paddle := (paddle pl)\<lparr>paddle_y := y\<rparr>\<rparr>) (players room),
                 gameState := setSlot (side pl) (Some p) (gameState room)\<rparr>)\<rparr>))"
  by (auto simp: movePaddle_def Let_def split: option.splits)

lemma movePaddle_preserves_inv:
  assumes inv: "managerInv s"
  shows "managerInv (snd (movePaddle p d s))"
proof -
  from movePaddle_result [of p d s] show ?thesis
  proof (elim disjE exE conjE)
    assume "movePaddle p d s = (None, s)"
    with inv show ?thesis by simp
  next
    fix rid room pl y
    assume m: "playerToRoom s p = Some rid" and room: "rooms s rid = Some room"
      and pl: "map_of (players room) p = Some pl"
      and res: "movePaddle p d s =
        (Some rid, s\<lparr>rooms := (rooms s)(rid \<mapsto>
            room\<lparr>players := AList.update p (pl\<lparr>paddle := (paddle pl)\<lparr>paddle_y := y\<rparr>\<rparr>) (players room),
                 gameState := setSlot (side pl) (Some p) (gameState room)\<rparr>)\<rparr>)"
    from managerInv_mappedD [OF inv m] obtain room0 pl0 where
      f: "rooms s rid = Some room0" "map_of (players room0) p = Some pl0"
         "slotOf (side pl0) (gameState room0) = Some p" by blast
    with room pl have eq: "room0 = room" "pl0 = pl" by auto
    have g: "setSlot (side pl) (Some p) (gameState room) = gameState room"
      using f(3) eq by (cases "side pl") (auto simp: setSlot_def)
    have "managerInv (s\<lparr>rooms := (rooms s)(rid \<mapsto>
            room\<lparr>players := AList.update p (pl\<lparr>paddle := (paddle pl)\<lparr>paddle_y := y\<rparr>\<rparr>) (players room),
                 gameState := setSlot (side pl) (Some p) (gameState room)\<rparr>)\<rparr>)"
      using g pl by (intro managerInv_same_shape_update [OF inv room]) (simp_all add: playerShape_update)
    with res show ?thesis by simp
  qed
qed

lemma startGame_result:
  "startGame r1 r2 r3 rid s = (False, s) \<or>
   (\<exists>room kl kr.
      rooms s rid = Some room \<and>
      startGame r1 r2 r3 rid s =
        (True, s\<lparr>rooms := (rooms s)(rid \<mapsto>
           (updatePlayer kr (\<lambda>p. p\<lparr>score := 0\<rparr>)
              (updatePlayer kl (\<lambda>p. p\<lparr>score := 0\<rparr>)
                 (room\<lparr>gameState := (gameState room)\<lparr>gameActive := True, winner := None\<rparr>\<rparr>)))
           \<lparr>gameState := resetBall r1 r2 r3
              ((gameState room)\<lparr>gameActive := True, winner := None\<rparr>)\<rparr>)\<rparr>))"
  by (auto simp: startGame_def Let_def updatePlayer_frame split: option.splits)

lemma startGame_preserves_inv:
  assumes inv: "managerInv s"
  shows "managerInv (snd (startGame r1 r2 r3 rid s))"
proof -
  from startGame_result [of r1 r2 r3 rid s] show ?thesis
  proof (elim disjE exE conjE)
    assume "startGame r1 r2 r3 rid s = (False, s)"
    with inv show ?thesis by simp
  next
    fix room kl kr
    let ?room' = "(updatePlayer kr (\<lambda>p. p\<lparr>score := 0\<rparr>)
              (updatePlayer kl (\<lambda>p. p\<lparr>score := 0\<rparr>)
                 (room\<lparr>gameState := (gameState room)\<lparr>gameActive := True, winner := None\<rparr>\<rparr>)))
           \<lparr>gameState := resetBall r1 r2 r3
              ((gameState room)\<lparr>gameActive := True, winner := None\<rparr>)\<rparr>"
    assume room: "rooms s rid = Some room"
      and res: "startGame r1 r2 r3 rid s = (True, s\<lparr>rooms := (rooms s)(rid \<mapsto> ?room')\<rparr>)"
    have "managerInv (s\<lparr>rooms := (rooms s)(rid \<mapsto> ?room')\<rparr>)"
      by (intro managerInv_same_shape_update [OF inv room])
         (simp_all add: playerShape_updatePlayer updatePlayer_frame resetBall_frame)
    with res show ?thesis by simp
  qed
qed

lemma scorePoint_shape:
  "room_id (scorePoint r1 r2 r3 ref room) = room_id room"
  "playerShape (players (scorePoint r1 r2 r3 ref room)) = playerShape (players room)"
  "players_left (gameState (scorePoint r1 r2 r3 ref room)) = players_left (gameState room)"
  "players_right (gameState (scorePoint r1 r2 r3 ref room)) = players_right (gameState room)"
  by (simp_all add: scorePoint_def Let_def resetBall_frame playerShape_update split: option.splits)

lemma updateBall_result:
  "updateBall r1 r2 r3 rid s = (False, s) \<or>
   (\<exists>room room' scored.
      rooms s rid = Some room \<and>
      updateBall r1 r2 r3 rid s = (scored, s\<lparr>rooms := (rooms s)(rid \<mapsto> room')\<rparr>) \<and>
      room_id room' = room_id room \<and>
      playerShape (players room') = playerShape (players room) \<and>
      players_left (gameState room') = players_left (gameState room) \<and>
      players_right (gameState room') = players_right (gameState room))"
proof (cases "rooms s rid")
  case None
  then show ?thesis by (simp add: updateBall_def)
next
  case (Some room)
  show ?thesis
  proof (cases "gameActive (gameState room)")
    case False
    with Some show ?thesis by (simp add: updateBall_def)
  next
    case True
    define b where "b = hitRightPaddle (map_option paddle (deref room (players_right (gameState room))))
       (hitLeftPaddle (map_option paddle (deref room (players_left (gameState room))))
          (bounceWalls (moveBall (ball (gameState room)))))"
    define room1 where "room1 = room\<lparr>gameState := (gameState room)\<lparr>ball := b\<rparr>\<rparr>"
    define room' where "room' =
      (if ball_x b < 0 then scorePoint r1 r2 r3 (players_right (gameState room)) room1
       else if ball_x b > GAME_WIDTH then scorePoint r1 r2 r3 (players_left (gameState room)) room1
       else room1)"
    have res: "updateBall r1 r2 r3 rid s =
        (ball_x b < 0 \<or> ball_x b > GAME_WIDTH, s\<lparr>rooms := (rooms s)(rid \<mapsto> room')\<rparr>)"
      using Some True
      by (simp add: updateBall_def Let_def b_def [symmetric] room1_def [symmetric] room'_def)
    have "room_id room' = room_id room"
      "playerShape (players room') = playerShape (players room)"
      "players_left (gameState room') = players_left (gameState room)"
      "players_right (gameState room') = players_right (gameState room)"
      by (simp_all add: room'_def scorePoint_shape) (simp_all add: room1_def)
    with res Some show ?thesis by blast
  qed
qed

lemma updateBall_preserves_inv:
  assumes inv: "managerInv s"
  shows "managerInv (snd (updateBall r1 r2 r3 rid s))"
proof -
  from updateBall_result [of r1 r2 r3 rid s] show ?thesis
  proof (elim disjE exE conjE)
    assume "updateBall r1 r2 r3 rid s = (False, s)"
    with inv show ?thesis by simp
  next
    fix room room' scored
    assume room: "rooms s rid = Some room"
      and res: "updateBall r1 r2 r3 rid s = (scored, s\<lparr>rooms := (rooms s)(rid \<mapsto> room')\<rparr>)"
      and shape: "room_id room' = room_id room"
        "playerShape (players room') = playerShape (players room)"
        "players_left (gameState room') = players_left (gameState room)"
        "players_right (gameState room') = players_right (gameState room)"
    from managerInv_same_shape_update [OF inv room shape] res show ?thesis by simp
  qed
qed

lemma startGameLoop_preserves_inv:
  assumes inv: "managerInv s"
  shows "managerInv (startGameLoop h rid s)"
proof (cases "rooms s rid")
  case None
  with inv show ?thesis by (simp add: startGameLoop_def)
next
  case (Some room)
  let ?s1 = "s\<lparr>intervals := insert h (clearInterval (gameLoopIntervalId room) (intervals s))\<rparr>"
  have inv1: "managerInv ?s1" using inv by (simp add: managerInv_intervals)
  have room1: "rooms ?s1 rid = Some room" using Some by simp
  have "managerInv (?s1\<lparr>rooms := (rooms ?s1)(rid \<mapsto> room\<lparr>gameLoopIntervalId := Some h\<rparr>)\<rparr>)"
    by (intro managerInv_same_shape_update [OF inv1 room1]) simp_all
  with Some show ?thesis by (simp add: startGameLoop_def)
qed

lemma clearAllGames_preserves_inv: "managerInv (clearAllGames s)"
  by (simp add: managerInv_def clearAllGames_def)

lemma reachable_managerInv: "reachable s \<Longrightarrow> managerInv s"
proof (induction rule: reachable.induct)
  case initial
  show ?case by (rule managerInv_new)
next
  case (join s now sfx r1 r2 p)
  then show ?case by (intro addPlayer_preserves_inv)
next
  case (leave s p)
  then show ?case by (intro removePlayer_preserves_inv)
next
  case (move s p d)
  then show ?case by (intro movePaddle_preserves_inv)
next
  case (start s r1 r2 r3 rid)
  then show ?case by (intro startGame_preserves_inv)
next
  case (tick s r1 r2 r3 rid)
  then show ?case by (intro updateBall_preserves_inv)
next
  case (loop s h rid)
  then show ?case by (intro startGameLoop_preserves_inv)
next
  case (clear s)
  show ?case by (rule clearAllGames_preserves_inv)
qed

subsection \<open>An active room has both slots occupied\<close>

lemma activeInv_room_update:
  assumes "activeInv s"
    and "gameActive (gameState room') \<Longrightarrow>
           players_left (gameState room') \<noteq> None \<and> players_right (gameState room') \<noteq> None"
  shows "activeInv (s\<lparr>rooms := (rooms s)(rid \<mapsto> room')\<rparr>)"
  using assms unfolding activeInv_def by (simp split: if_splits)

lemma activeInv_addPlayer:
  assumes "activeInv s"
  shows "activeInv (snd (addPlayer now sfx r1 r2 p s))"
proof (cases "existingPlayer s p")
  case (Some t)
  then obtain rid room pl where t: "existingPlayer s p = Some (rid, room, pl)"
    by (cases t) auto
  from existingPlayer_SomeD [OF t] have room: "rooms s rid = Some room" by simp
  with assms have q: "gameActive (gameState room) \<longrightarrow>
      players_left (gameState room) \<noteq> None \<and> players_right (gameState room) \<noteq> None"
    unfolding activeInv_def by blast
  let ?room' = "room\<lparr>players := AList.update p (pl\<lparr>connected := True\<rparr>) (players room),
                      gameState := setSlot (side pl) (Some p) (gameState room)\<rparr>"
  have res: "snd (addPlayer now sfx r1 r2 p s) = s\<lparr>rooms := (rooms s)(rid \<mapsto> ?room')\<rparr>"
    using t by (simp add: addPlayer_def)
  have "activeInv (s\<lparr>rooms := (rooms s)(rid \<mapsto> ?room')\<rparr>)"
    using q by (intro activeInv_room_update [OF assms]) (auto simp: setSlot_def)
  with res show ?thesis by simp
next
  case None
  have c: "rooms (cleanInvalidMapping s p) = rooms s"
    "waitingPlayers (cleanInvalidMapping s p) = waitingPlayers s"
    by (simp_all add: cleanInvalidMapping_def split: option.splits)
  have a: "activeInv (cleanInvalidMapping s p)"
    using assms c unfolding activeInv_def by simp
  show ?thesis
  proof (cases "waitingPlayers s")
    case Nil
    with None c a show ?thesis by (simp add: addPlayer_def activeInv_def)
  next
    case (Cons w rest)
    show ?thesis
    proof (cases "w = p")
      case True
      with None Cons c a show ?thesis by (simp add: addPlayer_def activeInv_def)
    next
      case False
      with None Cons c a show ?thesis
        by (simp add: addPlayer_def activeInv_def Let_def createInitialGameState_def)
    qed
  qed
qed

lemma activeInv_removePlayer:
  assumes "activeInv s"
  shows "activeInv (snd (removePlayer p s))"
  using assms
  by (auto simp: removePlayer_def activeInv_def Let_def
      split: option.splits list.splits if_splits)

lemma activeInv_movePaddle:
  assumes "activeInv s"
  shows "activeInv (snd (movePaddle p d s))"
proof -
  from movePaddle_result [of p d s] show ?thesis
  proof (elim disjE exE conjE)
    assume "movePaddle p d s = (None, s)"
    with assms show ?thesis by simp
  next
    fix rid room pl y
    assume room: "rooms s rid = Some room"
      and res: "movePaddle p d s =
        (Some rid, s\<lparr>rooms := (rooms s)(rid \<mapsto>
            room\<lparr>players := AList.update p (pl\<lparr>paddle := (paddle pl)\<lparr>paddle_y := y\<rparr>\<rparr>) (players room),
                 gameState := setSlot (side pl) (Some p) (gameState room)\<rparr>)\<rparr>)"
    from assms room have q: "gameActive (gameState room) \<longrightarrow>
      players_left (gameState room) \<noteq> None \<and> players_right (gameState room) \<noteq> None"
      unfolding activeInv_def by blast
    have "activeInv (s\<lparr>rooms := (rooms s)(rid \<mapsto>
            room\<lparr>players := AList.update p (pl\<lparr>paddle := (paddle pl)\<lparr>paddle_y := y\<rparr>\<rparr>) (players room),
                 gameState := setSlot (side pl) (Some p) (gameState room)\<rparr>)\<rparr>)"
      using q by (intro activeInv_room_update [OF assms]) (auto simp: setSlot_def)
    with res show ?thesis by simp
  qed
qed

lemma activeInv_startGame:
  assumes "activeInv s"
  shows "activeInv (snd (startGame r1 r2 r3 rid s))"
  using assms
  by (auto simp: startGame_def activeInv_def Let_def updatePlayer_frame resetBall_frame
      split: option.splits if_splits)

lemma activeInv_updateBall:
  assumes "activeInv s"
  shows "activeInv (snd (updateBall r1 r2 r3 rid s))"
proof (cases "rooms s rid")
  case None
  with assms show ?thesis by (simp add: updateBall_def)
next
  case (Some room)
  show ?thesis
  proof (cases "gameActive (gameState room)")
    case False
    with Some assms show ?thesis by (simp add: updateBall_def)
  next
    case True
    with assms Some have q: "players_left (gameState room) \<noteq> None"
      "players_right (gameState room) \<noteq> None"
      unfolding activeInv_def by blast+
    define b where "b = hitRightPaddle (map_option paddle (deref room (players_right (gameState room))))
       (hitLeftPaddle (map_option paddle (deref room (players_left (gameState room))))
          (bounceWalls (moveBall (ball (gameState room)))))"
    define room1 where "room1 = room\<lparr>gameState := (gameState room)\<lparr>ball := b\<rparr>\<rparr>"
    define room' where "room' =
      (if ball_x b < 0 then scorePoint r1 r2 r3 (players_right (gameState room)) room1
       else if ball_x b > GAME_WIDTH then scorePoint r1 r2 r3 (players_left (gameState room)) room1
       else room1)"
    have res: "snd (updateBall r1 r2 r3 rid s) = s\<lparr>rooms := (rooms s)(rid \<mapsto> room')\<rparr>"
      using Some True
      by (simp add: updateBall_def Let_def b_def [symmetric] room1_def [symmetric] room'_def)
    have "players_left (gameState room') = players_left (gameState room)"
      "players_right (gameState room') = players_right (gameState room)"
      by (simp_all add: room'_def scorePoint_shape) (simp_all add: room1_def)
    with q have "activeInv (s\<lparr>rooms := (rooms s)(rid \<mapsto> room')\<rparr>)"
      by (intro activeInv_room_update [OF assms]) simp
    with res show ?thesis by simp
  qed
qed

lemma activeInv_startGameLoop:
  assumes "activeInv s"
  shows "activeInv (startGameLoop h rid s)"
  using assms
  by (auto simp: startGameLoop_def activeInv_def split: option.splits if_splits)

lemma reachable_activeInv: "reachable s \<Longrightarrow> activeInv s"
proof (induction rule: reachable.induct)
  case initial
  show ?case by (simp add: activeInv_def newGameManager_def)
next
  case (join s now sfx r1 r2 p)
  then show ?case by (intro activeInv_addPlayer)
next
  case (leave s p)
  then show ?case by (intro activeInv_removePlayer)
next
  case (move s p d)
  then show ?case by (intro activeInv_movePaddle)
next
  case (start s r1 r2 r3 rid)
  then show ?case by (intro activeInv_startGame)
next
  case (tick s r1 r2 r3 rid)
  then show ?case by (intro activeInv_updateBall)
next
  case (loop s h rid)
  then show ?case by (intro activeInv_startGameLoop)
next
  case (clear s)
  show ?case by (simp add: activeInv_def clearAllGames_def)
qed

subsection \<open>The ball's vertical speed and the left paddle's column\<close>

lemma physInv_room_update:
  assumes "physInv s" "roomPhys room'"
  shows "physInv (s\<lparr>rooms := (rooms s)(rid \<mapsto> room')\<rparr>)"
  using assms unfolding physInv_def by (simp split: if_splits)

lemma roomPhys_update_player:
  assumes "roomPhys room" "map_of (players room) k = Some p"
    "side p' = side p" "paddle_x (paddle p') = paddle_x (paddle p)"
    "\<bar>ball_vy (ball gs')\<bar> = 3"
  shows "roomPhys (room\<lparr>players := AList.update k p' (players room), gameState := gs'\<rparr>)"
  using assms unfolding roomPhys_def by (auto simp: map_of_update_cases)

lemma roomPhys_gameState:
  assumes "roomPhys room" "\<bar>ball_vy (ball gs')\<bar> = 3"
  shows "roomPhys (room\<lparr>gameState := gs'\<rparr>)"
  using assms unfolding roomPhys_def by auto

lemma setSlot_ball: "ball (setSlot sd ref gs) = ball gs"
  by (simp add: setSlot_def)

lemma physInv_addPlayer:
  assumes "physInv s"
  shows "physInv (snd (addPlayer now sfx r1 r2 p s))"
proof (cases "existingPlayer s p")
  case (Some t)
  then obtain rid room pl where t: "existingPlayer s p = Some (rid, room, pl)"
    by (cases t) auto
  from existingPlayer_SomeD [OF t] have room: "rooms s rid = Some room"
    and pl: "map_of (players room) p = Some pl" by simp_all
  with assms have q: "roomPhys room" unfolding physInv_def by blast
  then have vy: "\<bar>ball_vy (ball (gameState room))\<bar> = 3" by (simp add: roomPhys_def)
  let ?room' = "room\<lparr>players := AList.update p (pl\<lparr>connected := True\<rparr>) (players room),
                      gameState := setSlot (side pl) (Some p) (gameState room)\<rparr>"
  have res: "snd (addPlayer now sfx r1 r2 p s) = s\<lparr>rooms := (rooms s)(rid \<mapsto> ?room')\<rparr>"
    using t by (simp add: addPlayer_def)
  have "roomPhys ?room'"
    using vy by (intro roomPhys_update_player [OF q pl]) (simp_all add: setSlot_ball)
  with res physInv_room_update [OF assms] show ?thesis by simp
next
  case None
  have c: "rooms (cleanInvalidMapping s p) = rooms s"
    by (simp add: cleanInvalidMapping_def split: option.splits)
  have a: "physInv (cleanInvalidMapping s p)"
    using assms c unfolding physInv_def by simp
  show ?thesis
  proof (cases "waitingPlayers (cleanInvalidMapping s p)")
    case Nil
    with None a show ?thesis by (simp add: addPlayer_def physInv_def)
  next
    case (Cons w rest)
    show ?thesis
    proof (cases "w = p")
      case True
      with None Cons a show ?thesis by (simp add: addPlayer_def physInv_def)
    next
      case False
      let ?room = "\<lparr>room_id = newRoomId now sfx,
                     gameState = (createInitialGameState r1 r2)
                        \<lparr>players_left := Some w, players_right := Some p\<rparr>,
                     players = [(w, createPlayer w Left), (p, createPlayer p Right)],
                     gameLoopIntervalId = None\<rparr>"
      have new: "roomPhys ?room"
        by (auto simp: roomPhys_def createInitialGameState_def createPlayer_def randomSign_def
            game_consts split: if_splits)
      have "physInv (snd (addPlayer now sfx r1 r2 p s))"
        using None Cons False a new
        by (simp add: addPlayer_def Let_def physInv_def)
      then show ?thesis .
    qed
  qed
qed

lemma physInv_removePlayer:
  assumes "physInv s"
  shows "physInv (snd (removePlayer p s))"
proof -
  have upd: "roomPhys (room\<lparr>players := AList.update p (pl\<lparr>connected := False\<rparr>) (players room),
                             gameState := gs'\<rparr>)"
    if "rooms s rid = Some room" "map_of (players room) p = Some pl"
      "ball gs' = ball (gameState room)" for rid room pl gs'
  proof -
    from assms that(1) have q: "roomPhys room" unfolding physInv_def by blast
    then have "\<bar>ball_vy (ball gs')\<bar> = 3" using that(3) by (simp add: roomPhys_def)
    then show ?thesis by (intro roomPhys_update_player [OF q that(2)]) simp_all
  qed
  show ?thesis
    using assms upd
    by (auto simp: removePlayer_def physInv_def Let_def setSlot_ball
        split: option.splits list.splits if_splits)
qed

lemma roomPhys_updatePlayer:
  assumes "roomPhys room" "\<And>p. side (f p) = side p \<and> paddle (f p) = paddle p"
  shows "roomPhys (updatePlayer k f room)"
proof (cases "map_of (players room) k")
  case None
  with assms(1) show ?thesis by (simp add: updatePlayer_def)
next
  case (Some p)
  have "roomPhys (room\<lparr>players := AList.update k (f p) (players room), gameState := gameState room\<rparr>)"
    using assms by (intro roomPhys_update_player [OF assms(1) Some]) (simp_all add: roomPhys_def)
  with Some show ?thesis by (simp add: updatePlayer_def)
qed

lemma physInv_movePaddle:
  assumes "physInv s"
  shows "physInv (snd (movePaddle p d s))"
proof -
  from movePaddle_result [of p d s] show ?thesis
  proof (elim disjE exE conjE)
    assume "movePaddle p d s = (None, s)"
    with assms show ?thesis by simp
  next
    fix rid room pl y
    assume room: "rooms s rid = Some room" and pl: "map_of (players room) p = Some pl"
      and res: "movePaddle p d s =
        (Some rid, s\<lparr>rooms := (rooms s)(rid \<mapsto>
            room\<lparr>players := AList.update p (pl\<lparr>paddle := (paddle pl)\<lparr>paddle_y := y\<rparr>\<rparr>) (players room),
                 gameState := setSlot (side pl) (Some p) (gameState room)\<rparr>)\<rparr>)"
    from assms room have q: "roomPhys room" unfolding physInv_def by blast
    then have vy: "\<bar>ball_vy (ball (gameState room))\<bar> = 3" by (simp add: roomPhys_def)
    have "roomPhys (room\<lparr>players := AList.update p (pl\<lparr>paddle := (paddle pl)\<lparr>paddle_y := y\<rparr>\<rparr>) (players room),
                 gameState := setSlot (side pl) (Some p) (gameState room)\<rparr>)"
      using vy by (intro roomPhys_update_player [OF q pl]) (simp_all add: setSlot_ball)
    with res physInv_room_update [OF assms] show ?thesis by simp
  qed
qed

lemma physInv_startGame:
  assumes "physInv s"
  shows "physInv (snd (startGame r1 r2 r3 rid s))"
proof -
  from startGame_result [of r1 r2 r3 rid s] show ?thesis
  proof (elim disjE exE conjE)
    assume "startGame r1 r2 r3 rid s = (False, s)"
    with assms show ?thesis by simp
  next
    fix room :: GameRoom and kl kr :: string
    let ?room1 = "room\<lparr>gameState := (gameState room)\<lparr>gameActive := True, winner := None\<rparr>\<rparr>"
    let ?room' = "(updatePlayer kr (\<lambda>p. p\<lparr>score := 0\<rparr>)
              (updatePlayer kl (\<lambda>p. p\<lparr>score := 0\<rparr>) ?room1))
           \<lparr>gameState := resetBall r1 r2 r3
              ((gameState room)\<lparr>gameActive := True, winner := None\<rparr>)\<rparr>"
    assume room: "rooms s rid = Some room"
      and res: "startGame r1 r2 r3 rid s = (True, s\<lparr>rooms := (rooms s)(rid \<mapsto> ?room')\<rparr>)"
    from assms room have q: "roomPhys room" unfolding physInv_def by blast
    then have "roomPhys ?room1" by (simp add: roomPhys_def)
    then have "roomPhys (updatePlayer kl (\<lambda>p. p\<lparr>score := 0\<rparr>) ?room1)"
      by (rule roomPhys_updatePlayer) simp
    then have "roomPhys (updatePlayer kr (\<lambda>p. p\<lparr>score := 0\<rparr>)
              (updatePlayer kl (\<lambda>p. p\<lparr>score := 0\<rparr>) ?room1))"
      by (rule roomPhys_updatePlayer) simp
    then have "roomPhys ?room'"
      by (rule roomPhys_gameState) (simp add: resetBall_ball)
    with res physInv_room_update [OF assms] show ?thesis by simp
  qed
qed

lemma step_ball_vy:
  "\<bar>ball_vy (hitRightPaddle rp (hitLeftPaddle lp (bounceWalls (moveBall b))))\<bar> = \<bar>ball_vy b\<bar>"
  by (cases rp; cases lp)
     (simp_all add: hitRightPaddle_def hitLeftPaddle_def bounceWalls_def moveBall_def)

lemma roomPhys_scorePoint:
  assumes "roomPhys room"
  shows "roomPhys (scorePoint r1 r2 r3 ref room)"
proof (cases "deref room ref")
  case None
  with assms show ?thesis by (simp add: scorePoint_null)
next
  case (Some p)
  then obtain k where k: "ref = Some k" "map_of (players room) k = Some p"
    by (auto simp: deref_def split: option.splits)
  show ?thesis
    unfolding scorePoint_player [OF k]
    by (intro roomPhys_update_player [OF assms k(2)]) (simp_all add: resetBall_ball)
qed

lemma physInv_updateBall:
  assumes "physInv s"
  shows "physInv (snd (updateBall r1 r2 r3 rid s))"
proof (cases "rooms s rid")
  case None
  with assms show ?thesis by (simp add: updateBall_def)
next
  case (Some room)
  show ?thesis
  proof (cases "gameActive (gameState room)")
    case False
    with Some assms show ?thesis by (simp add: updateBall_def)
  next
    case True
    from assms Some have q: "roomPhys room" unfolding physInv_def by blast
    define b where "b = hitRightPaddle (map_option paddle (deref room (players_right (gameState room))))
       (hitLeftPaddle (map_option paddle (deref room (players_left (gameState room))))
          (bounceWalls (moveBall (ball (gameState room)))))"
    define room1 where "room1 = room\<lparr>gameState := (gameState room)\<lparr>ball := b\<rparr>\<rparr>"
    define room' where "room' =
      (if ball_x b < 0 then scorePoint r1 r2 r3 (players_right (gameState room)) room1
       else if ball_x b > GAME_WIDTH then scorePoint r1 r2 r3 (players_left (gameState room)) room1
       else room1)"
    have res: "snd (updateBall r1 r2 r3 rid s) = s\<lparr>rooms := (rooms s)(rid \<mapsto> room')\<rparr>"
      using Some True
      by (simp add: updateBall_def Let_def b_def [symmetric] room1_def [symmetric] room'_def)
    have "\<bar>ball_vy b\<bar> = 3"
      using q unfolding b_def step_ball_vy by (simp add: roomPhys_def)
    then have "roomPhys room1"
      unfolding room1_def by (intro roomPhys_gameState [OF q]) simp
    then have "roomPhys room'"
      by (simp add: room'_def roomPhys_scorePoint)
    with res physInv_room_update [OF assms] show ?thesis by simp
  qed
qed

lemma physInv_startGameLoop:
  assumes "physInv s"
  shows "physInv (startGameLoop h rid s)"
  using assms
  by (auto simp: startGameLoop_def physInv_def roomPhys_def split: option.splits if_splits)

lemma reachable_physInv: "reachable s \<Longrightarrow> physInv s"
proof (induction rule: reachable.induct)
  case initial
  show ?case by (simp add: physInv_def newGameManager_def)
next
  case (join s now sfx r1 r2 p)
  then show ?case by (intro physInv_addPlayer)
next
  case (leave s p)
  then show ?case by (intro physInv_removePlayer)
next
  case (move s p d)
  then show ?case by (intro physInv_movePaddle)
next
  case (start s r1 r2 r3 rid)
  then show ?case by (intro physInv_startGame)
next
  case (tick s r1 r2 r3 rid)
  then show ?case by (intro physInv_updateBall)
next
  case (loop s h rid)
  then show ?case by (intro physInv_startGameLoop)
next
  case (clear s)
  show ?case by (simp add: physInv_def clearAllGames_def)
qed

text \<open>
  In an active room of a reachable state both slots hold a player, the left paddle stands
  at \<open>x = 20\<close> and the ball has the base vertical speed.
\<close>

lemma reachable_active_room:
  assumes "reachable s" "rooms s rid = Some room" "gameActive (gameState room)"
  shows "\<exists>kl pl kr pr.
           players_left (gameState room) = Some kl \<and> map_of (players room) kl = Some pl \<and>
           paddle_x (paddle pl) = 20 \<and>
           players_right (gameState room) = Some kr \<and> map_of (players room) kr = Some pr \<and>
           (ball_vy (ball (gameState room)) = 3 \<or> ball_vy (ball (gameState room)) = - 3)"
proof -
  from reachable_managerInv [OF assms(1)] assms(2) obtain a pa b pb where r:
    "players room = [(a, pa), (b, pb)]" "a \<noteq> b"
    "side pa = Left"
    "players_left (gameState room) = (if connected pa then Some a else None)"
    "players_right (gameState room) = (if connected pb then Some b else None)"
    by (rule managerInv_roomD)
  from reachable_activeInv [OF assms(1)] assms(2,3) have
    sl: "players_left (gameState room) \<noteq> None" "players_right (gameState room) \<noteq> None"
    unfolding activeInv_def by blast+
  from reachable_physInv [OF assms(1)] assms(2) have ph: "roomPhys room"
    unfolding physInv_def by blast
  have l: "players_left (gameState room) = Some a" "players_right (gameState room) = Some b"
    using r(4,5) sl by (auto split: if_splits)
  have m: "map_of (players room) a = Some pa" "map_of (players room) b = Some pb"
    using r(1,2) by auto
  have px: "paddle_x (paddle pa) = 20"
    using ph m(1) r(3) unfolding roomPhys_def by blast
  have vy: "ball_vy (ball (gameState room)) = 3 \<or> ball_vy (ball (gameState room)) = - 3"
    using ph unfolding roomPhys_def by auto
  from l m px vy show ?thesis by blast
qed

section \<open>The example states\<close>

lemma demoPlaying_built:
  "startGameLoop 7 demoRoomId
     (snd (startGame 0.2 0.8 0.5 demoRoomId
       (snd (addPlayer ''1700000000123'' ''k3x9q2m1z'' 0.7 0.2 ''bob''
         (snd (addPlayer ''1700000000007'' ''abcdefghi'' 0.1 0.9 ''alice'' newGameManager)))))) =
   demoPlaying"
  by (simp add: demo_defs manager_defs game_consts Let_def)

lemma demoPlaying_inv: "managerInv demoPlaying"
  unfolding managerInv_def roomInv_def
  by (auto simp: demo_defs createPlayer_def split: if_splits)

lemma demoPlaying_connected: "bothPlayersConnected demoRoomId demoPlaying"
  by (simp add: bothPlayersConnected_def deref_def demo_defs createPlayer_def)

lemma reachable_movePaddles: "reachable s \<Longrightarrow> reachable (movePaddles ms s)"
proof (induction ms arbitrary: s)
  case Nil
  then show ?case by simp
next
  case (Cons m ms)
  obtain p d where m: "m = (p, d)" by (cases m)
  from Cons.prems have "reachable (snd (movePaddle p d s))" by (rule reachable.move)
  from Cons.IH [OF this] m show ?case by simp
qed

lemma demoPlaying_reachable: "reachable demoPlaying"
proof -
  let ?s1 = "snd (addPlayer ''1700000000007'' ''abcdefghi'' 0.1 0.9 ''alice'' newGameManager)"
  have "rooms newGameManager (newRoomId ''1700000000007'' ''abcdefghi'') = None"
    by (simp add: newGameManager_def)
  with reachable.initial have r1: "reachable ?s1" by (rule reachable.join)
  have "rooms ?s1 (newRoomId ''1700000000123'' ''k3x9q2m1z'') = None"
    by (simp add: manager_defs)
  with r1 have "reachable (snd (addPlayer ''1700000000123'' ''k3x9q2m1z'' 0.7 0.2 ''bob'' ?s1))"
    by (rule reachable.join)
  then have "reachable (snd (startGame 0.2 0.8 0.5 demoRoomId
      (snd (addPlayer ''1700000000123'' ''k3x9q2m1z'' 0.7 0.2 ''bob'' ?s1))))"
    by (rule reachable.start)
  then have "reachable (startGameLoop 7 demoRoomId (snd (startGame 0.2 0.8 0.5 demoRoomId
      (snd (addPlayer ''1700000000123'' ''k3x9q2m1z'' 0.7 0.2 ''bob'' ?s1)))))"
    by (rule reachable.loop)
  then show ?thesis by (simp only: demoPlaying_built)
qed

lemma demo_alice_up:
  assumes "8 \<le> y"
  shows "snd (movePaddle ''alice'' Up
           (demoPlaying\<lparr>rooms := [demoRoomId \<mapsto>
              demoRoom\<lparr>players := [(''alice'', (createPlayer ''alice'' Left)
                                         \<lparr>paddle := \<lparr>paddle_x = 20, paddle_y = y\<rparr>\<rparr>),
                           (''bob'', createPlayer ''bob'' Right)]\<rparr>]\<rparr>)) =
         demoPlaying\<lparr>rooms := [demoRoomId \<mapsto>
              demoRoom\<lparr>players := [(''alice'', (createPlayer ''alice'' Left)
                                         \<lparr>paddle := \<lparr>paddle_x = 20, paddle_y = y - 8\<rparr>\<rparr>),
                           (''bob'', createPlayer ''bob'' Right)]\<rparr>]\<rparr>"
  using assms
  by (simp add: movePaddle_def demo_defs createPlayer_def setSlot_def Let_def game_consts)

lemma demoPlaying_paddle:
  "demoPlaying = demoPlaying\<lparr>rooms := [demoRoomId \<mapsto>
              demoRoom\<lparr>players := [(''alice'', (createPlayer ''alice'' Left)
                                         \<lparr>paddle := \<lparr>paddle_x = 20, paddle_y = 160\<rparr>\<rparr>),
                           (''bob'', createPlayer ''bob'' Right)]\<rparr>]\<rparr>"
  by (simp add: demo_defs createPlayer_def game_consts)

lemma demoClearPath_built:
  "movePaddles [(''alice'', Up), (''alice'', Up), (''alice'', Up), (''alice'', Up),
                (''alice'', Up), (''alice'', Up), (''alice'', Up), (''alice'', Up),
                (''alice'', Up), (''alice'', Up), (''alice'', Up)] demoPlaying = demoClearPath"
  apply (subst demoPlaying_paddle)
  apply (simp add: demo_alice_up)
  apply (simp add: demoClearPath_def demoClearRoom_def)
  done

lemma demoClearPath_reachable: "reachable demoClearPath"
  using reachable_movePaddles [OF demoPlaying_reachable] demoClearPath_built by metis

lemma demoQueued_built:
  "snd (addPlayer ''1700000000500'' ''zzzzzzzzz'' 0.3 0.3 ''carol'' demoPlaying) = demoQueued"
  by (simp add: demoQueued_def addPlayer_def existingPlayer_def cleanInvalidMapping_def demo_defs)

lemma demoQueued_inv: "managerInv demoQueued"
  unfolding demoQueued_def
  by (rule managerInv_queue_update [OF demoPlaying_inv]) (simp_all add: demo_defs)

lemma demo_alice_leaves:
  "removePlayer ''alice'' demoPlaying =
     (Some \<lparr>rem_roomId = demoRoomId, disconnectedSide = Left\<rparr>,
      \<lparr>rooms = [demoRoomId \<mapsto>
          demoRoom\<lparr>players := [(''alice'', (createPlayer ''alice'' Left)\<lparr>connected := False\<rparr>),
                                (''bob'', createPlayer ''bob'' Right)],
                   gameState := (gameState demoRoom)\<lparr>players_left := None, gameActive := False,
                                                     winner := Some ''bob''\<rparr>\<rparr>],
       waitingPlayers = [],
       playerToRoom = [''bob'' \<mapsto> demoRoomId],
       intervals = {}\<rparr>)"
  by (simp add: removePlayer_def demo_defs createPlayer_def setSlot_def clearInterval_def Let_def
      fun_upd_twist)

lemma demo_match_point_tick:
  "updateBall 0.9 0.9 0.9 demoRoomId demoMatchPoint =
     (True,
      demoMatchPoint\<lparr>rooms := [demoRoomId \<mapsto>
        demoRoom\<lparr>gameState := \<lparr>ball = \<lparr>ball_x = 400, ball_y = 200, ball_vx = 3, ball_vy = 3\<rparr>,
                                 players_left = Some ''alice'', players_right = Some ''bob'',
                                 gameActive = False, winner = Some ''bob''\<rparr>,
                 players := [(''alice'', createPlayer ''alice'' Left),
                             (''bob'', (createPlayer ''bob'' Right)\<lparr>score := 5\<rparr>)]\<rparr>]\<rparr>)"
  by (simp add: updateBall_def demoMatchPoint_def demo_defs Let_def deref_def createPlayer_def
      moveBall_def bounceWalls_def hitLeftPaddle_def hitRightPaddle_def scorePoint_def
      resetBall_def randomSign_def game_consts)

section \<open>Physics lemmas\<close>

lemma movePaddle_paddle_range:
  assumes room: "rooms s rid = Some room"
    and pl: "map_of (players room) k = Some pl"
    and range: "0 \<le> paddle_y (paddle pl)" "paddle_y (paddle pl) \<le> 320"
  shows "\<exists>room' pl'. rooms (snd (movePaddle p d s)) rid = Some room' \<and>
           map_of (players room') k = Some pl' \<and>
           0 \<le> paddle_y (paddle pl') \<and> paddle_y (paddle pl') \<le> 320"
  using assms
  by (cases d)
     (auto simp: movePaddle_def Let_def map_of_update_cases game_consts split: option.splits)

lemma scorePoint_win_iff:
  assumes active: "gameActive (gameState room)"
    and ref: "ref = players_left (gameState room) \<or> ref = players_right (gameState room)"
    and ps: "players room0 = players room"
    and lr: "players_left (gameState room0) = players_left (gameState room)"
        "players_right (gameState room0) = players_right (gameState room)"
    and w: "winner (gameState room0) = winner (gameState room)"
    and room'_def: "room' = scorePoint r1 r2 r3 ref room"
  shows "((\<not> gameActive (gameState room')) =
            (\<exists>k p p'. (players_left (gameState room0) = Some k \<or> players_right (gameState room0) = Some k) \<and>
               map_of (players room0) k = Some p \<and> map_of (players room') k = Some p' \<and>
               score p' = score p + 1 \<and> score p' \<ge> 5)) \<and>
         (\<forall>k p p'. (players_left (gameState room0) = Some k \<or> players_right (gameState room0) = Some k) \<and>
               map_of (players room0) k = Some p \<and> map_of (players room') k = Some p' \<and>
               score p' = score p + 1 \<and> score p' \<ge> 5 \<longrightarrow>
               winner (gameState room') = Some (pid p') \<and> pid p' = pid p) \<and>
         (gameActive (gameState room') \<longrightarrow> winner (gameState room') = winner (gameState room0))"
proof (cases "deref room ref")
  case None
  then have same: "room' = room" unfolding room'_def by (rule scorePoint_null)
  have no: "\<not> (map_of (players room0) k = Some p \<and> map_of (players room') k = Some p' \<and>
      score p' = score p + 1)" for k p p'
    unfolding same ps by auto
  have "gameActive (gameState room')" "winner (gameState room') = winner (gameState room0)"
    using active w by (simp_all add: same)
  with no show ?thesis by blast
next
  case (Some p)
  then obtain k where k: "ref = Some k" "map_of (players room) k = Some p"
    by (auto simp: deref_def split: option.splits)
  have r: "room' = room\<lparr>players := AList.update k (p\<lparr>score := score p + 1\<rparr>) (players room),
                gameState := (resetBall r1 r2 r3 (gameState room))
                   \<lparr>winner := (if score p + 1 \<ge> 5 then Some (pid p) else winner (gameState room)),
                    gameActive := (if score p + 1 \<ge> 5 then False else gameActive (gameState room))\<rparr>\<rparr>"
    unfolding room'_def by (rule scorePoint_player [OF k])
  have act: "gameActive (gameState room') = (\<not> score p + 1 \<ge> 5)"
    by (simp add: r resetBall_frame active)
  have win: "winner (gameState room') = (if score p + 1 \<ge> 5 then Some (pid p) else winner (gameState room))"
    by (simp add: r resetBall_frame)
  have look: "map_of (players room') j = (if j = k then Some (p\<lparr>score := score p + 1\<rparr>) else map_of (players room) j)" for j
    by (simp add: r map_of_update_cases)
  have only: "j = k \<and> p0 = p \<and> p' = p\<lparr>score := score p + 1\<rparr>"
    if "map_of (players room0) j = Some p0" "map_of (players room') j = Some p'"
      "score p' = score p0 + 1" for j p0 p'
    using that k ps look [of j] by (cases "j = k") auto
  have slot: "players_left (gameState room0) = Some k \<or> players_right (gameState room0) = Some k"
    using ref k lr by auto
  have c2: "\<forall>j p0 p'. (players_left (gameState room0) = Some j \<or> players_right (gameState room0) = Some j) \<and>
               map_of (players room0) j = Some p0 \<and> map_of (players room') j = Some p' \<and>
               score p' = score p0 + 1 \<and> score p' \<ge> 5 \<longrightarrow>
               winner (gameState room') = Some (pid p') \<and> pid p' = pid p0"
  proof (intro allI impI)
    fix j p0 p'
    assume a: "(players_left (gameState room0) = Some j \<or> players_right (gameState room0) = Some j) \<and>
               map_of (players room0) j = Some p0 \<and> map_of (players room') j = Some p' \<and>
               score p' = score p0 + 1 \<and> score p' \<ge> 5"
    then have "j = k \<and> p0 = p \<and> p' = p\<lparr>score := score p + 1\<rparr>" by (intro only) auto
    with a win show "winner (gameState room') = Some (pid p') \<and> pid p' = pid p0" by auto
  qed
  have c1: "(\<not> gameActive (gameState room')) =
            (\<exists>j p0 p'. (players_left (gameState room0) = Some j \<or> players_right (gameState room0) = Some j) \<and>
               map_of (players room0) j = Some p0 \<and> map_of (players room') j = Some p' \<and>
               score p' = score p0 + 1 \<and> score p' \<ge> 5)"
  proof (cases "score p + 1 \<ge> 5")
    case True
    have "\<exists>j p0 p'. (players_left (gameState room0) = Some j \<or> players_right (gameState room0) = Some j) \<and>
               map_of (players room0) j = Some p0 \<and> map_of (players room') j = Some p' \<and>
               score p' = score p0 + 1 \<and> score p' \<ge> 5"
      apply (rule exI [of _ k], rule exI [of _ p], rule exI [of _ "p\<lparr>score := score p + 1\<rparr>"])
      using True k slot ps look by auto
    with act True show ?thesis by simp
  next
    case False
    have "\<not> (\<exists>j p0 p'. (players_left (gameState room0) = Some j \<or> players_right (gameState room0) = Some j) \<and>
               map_of (players room0) j = Some p0 \<and> map_of (players room') j = Some p' \<and>
               score p' = score p0 + 1 \<and> score p' \<ge> 5)"
    proof
      assume "\<exists>j p0 p'. (players_left (gameState room0) = Some j \<or> players_right (gameState room0) = Some j) \<and>
               map_of (players room0) j = Some p0 \<and> map_of (players room') j = Some p' \<and>
               score p' = score p0 + 1 \<and> score p' \<ge> 5"
      then obtain j p0 p' where a: "map_of (players room0) j = Some p0"
        "map_of (players room') j = Some p'" "score p' = score p0 + 1" "score p' \<ge> 5" by blast
      from only [OF a(1-3)] a(4) False show False by auto
    qed
    with act False show ?thesis by simp
  qed
  have c3: "gameActive (gameState room') \<longrightarrow> winner (gameState room') = winner (gameState room0)"
    using act win w by auto
  from c1 c2 c3 show ?thesis by blast
qed

lemma updateBall_no_contact:
  assumes room: "rooms s rid = Some room"
    and active: "gameActive (gameState room)"
    and vx: "ball_vx (ball (gameState room)) < 0"
    and inside: "0 \<le> ball_x (ball (gameState room)) + ball_vx (ball (gameState room))"
      "ball_x (ball (gameState room)) \<le> GAME_WIDTH"
    and nohit: "hitLeftPaddle (map_option paddle (deref room (players_left (gameState room))))
                  (bounceWalls (moveBall (ball (gameState room)))) =
                bounceWalls (moveBall (ball (gameState room)))"
  shows "updateBall r1 r2 r3 rid s =
           (False, s\<lparr>rooms := (rooms s)(rid \<mapsto>
              room\<lparr>gameState := (gameState room)
                 \<lparr>ball := bounceWalls (moveBall (ball (gameState room)))\<rparr>\<rparr>)\<rparr>)"
proof -
  define b0 where "b0 = bounceWalls (moveBall (ball (gameState room)))"
  have b0: "ball_x b0 = ball_x (ball (gameState room)) + ball_vx (ball (gameState room))"
    "ball_vx b0 = ball_vx (ball (gameState room))"
    by (simp_all add: b0_def bounceWalls_def moveBall_def)
  have r: "hitRightPaddle rp b0 = b0" for rp
    using vx b0 by (cases rp) (simp_all add: hitRightPaddle_def)
  show ?thesis
    using room active inside vx b0 nohit [folded b0_def]
    by (simp add: updateBall_def Let_def b0_def [symmetric] r)
qed

lemma flight_step_up_first:
  assumes "ball_x b = 400 - 3 * real n" "ball_vx b = - 3"
    and "ball_y b = (if n < 60 then 200 + 3 * real n else 560 - 3 * real n)"
    and "ball_vy b = (if n < 60 then 3 else - 3)"
    and "n \<le> 133"
  shows "ball_x (bounceWalls (moveBall b)) = 400 - 3 * real (Suc n)"
    "ball_vx (bounceWalls (moveBall b)) = - 3"
    "ball_y (bounceWalls (moveBall b)) =
       (if Suc n < 60 then 200 + 3 * real (Suc n) else 560 - 3 * real (Suc n))"
    "ball_vy (bounceWalls (moveBall b)) = (if Suc n < 60 then 3 else - 3)"
  using assms
  by (auto simp: bounceWalls_def moveBall_def game_consts)

lemma flight_step_down_first:
  assumes "ball_x b = 400 - 3 * real n" "ball_vx b = - 3"
    and "ball_y b = (if n < 67 then 200 - 3 * real n else 3 * real n - 201)"
    and "ball_vy b = (if n < 67 then - 3 else 3)"
    and "n \<le> 133"
  shows "ball_x (bounceWalls (moveBall b)) = 400 - 3 * real (Suc n)"
    "ball_vx (bounceWalls (moveBall b)) = - 3"
    "ball_y (bounceWalls (moveBall b)) =
       (if Suc n < 67 then 200 - 3 * real (Suc n) else 3 * real (Suc n) - 201)"
    "ball_vy (bounceWalls (moveBall b)) = (if Suc n < 67 then - 3 else 3)"
  using assms
  by (auto simp: bounceWalls_def moveBall_def game_consts)

lemma no_contact_left:
  assumes "paddle_x lp = 20"
    and "ball_x b1 = 400 - 3 * real (Suc n)"
    and "(Suc n < 120 \<or> 133 < Suc n) \<or> ball_y b1 + 20 < paddle_y lp \<or> paddle_y lp + 80 < ball_y b1"
  shows "hitLeftPaddle (Some lp) b1 = b1"
  using assms by (auto simp: hitLeftPaddle_def game_consts)

lemma ticks_flight_up_first:
  assumes room: "rooms s rid = Some room"
    and active: "gameActive (gameState room)"
    and left: "deref room (players_left (gameState room)) = Some pl"
      "paddle_x (paddle pl) = 20"
      "paddle_y (paddle pl) < 81 \<or> 220 < paddle_y (paddle pl)"
    and start: "ball_x (ball (gameState room)) = 400" "ball_y (ball (gameState room)) = 200"
      "ball_vx (ball (gameState room)) = - 3" "ball_vy (ball (gameState room)) = 3"
    and n: "n \<le> 133"
  shows "\<exists>b. ticks rnd rid n s =
               s\<lparr>rooms := (rooms s)(rid \<mapsto> room\<lparr>gameState := (gameState room)\<lparr>ball := b\<rparr>\<rparr>)\<rparr> \<and>
             ball_x b = 400 - 3 * real n \<and> ball_vx b = - 3 \<and>
             ball_y b = (if n < 60 then 200 + 3 * real n else 560 - 3 * real n) \<and>
             ball_vy b = (if n < 60 then 3 else - 3)"
  using n
proof (induction n)
  case 0
  have e2: "(rooms s)(rid \<mapsto> room) = rooms s" using room by (simp add: fun_upd_idem)
  show ?case
    using start by (intro exI [of _ "ball (gameState room)"]) (simp add: e2)
next
  case (Suc n)
  from Suc.prems have n: "n \<le> 133" by simp
  from Suc.IH [OF this] obtain b where b:
    "ticks rnd rid n s = s\<lparr>rooms := (rooms s)(rid \<mapsto> room\<lparr>gameState := (gameState room)\<lparr>ball := b\<rparr>\<rparr>)\<rparr>"
    "ball_x b = 400 - 3 * real n" "ball_vx b = - 3"
    "ball_y b = (if n < 60 then 200 + 3 * real n else 560 - 3 * real n)"
    "ball_vy b = (if n < 60 then 3 else - 3)"
    by blast
  let ?room = "room\<lparr>gameState := (gameState room)\<lparr>ball := b\<rparr>\<rparr>"
  let ?s = "ticks rnd rid n s"
  let ?b1 = "bounceWalls (moveBall b)"
  note b1 = flight_step_up_first [OF b(2-5) n]
  obtain r1 r2 r3 where rnd: "rnd n = (r1, r2, r3)" by (cases "rnd n")
  have clear: "(Suc n < 120 \<or> 133 < Suc n) \<or> ball_y ?b1 + 20 < paddle_y (paddle pl) \<or>
      paddle_y (paddle pl) + 80 < ball_y ?b1"
    using left(3) Suc.prems unfolding b1(3) by (auto split: if_splits)
  have nohit: "hitLeftPaddle (Some (paddle pl)) ?b1 = ?b1"
    by (rule no_contact_left [OF left(2) b1(1) clear])
  have d: "deref ?room (players_left (gameState ?room)) = Some pl"
    using left(1) by (auto simp: deref_def split: option.splits)
  have pre: "rooms ?s rid = Some ?room" "gameActive (gameState ?room)"
    "ball_vx (ball (gameState ?room)) < 0"
    "0 \<le> ball_x (ball (gameState ?room)) + ball_vx (ball (gameState ?room))"
    "ball_x (ball (gameState ?room)) \<le> GAME_WIDTH"
    using b active Suc.prems by (simp_all add: game_consts)
  have nohit': "hitLeftPaddle (map_option paddle (deref ?room (players_left (gameState ?room))))
                  (bounceWalls (moveBall (ball (gameState ?room)))) =
                bounceWalls (moveBall (ball (gameState ?room)))"
    unfolding d using nohit by simp
  have "ticks rnd rid (Suc n) s =
          s\<lparr>rooms := (rooms s)(rid \<mapsto> room\<lparr>gameState := (gameState room)\<lparr>ball := ?b1\<rparr>\<rparr>)\<rparr>"
    using rnd updateBall_no_contact [OF pre nohit', of r1 r2 r3] by (simp add: b(1))
  with b1 show ?case by blast
qed

lemma ticks_flight_down_first:
  assumes room: "rooms s rid = Some room"
    and active: "gameActive (gameState room)"
    and left: "deref room (players_left (gameState room)) = Some pl"
      "paddle_x (paddle pl) = 20"
      "paddle_y (paddle pl) < 79 \<or> 218 < paddle_y (paddle pl)"
    and start: "ball_x (ball (gameState room)) = 400" "ball_y (ball (gameState room)) = 200"
      "ball_vx (ball (gameState room)) = - 3" "ball_vy (ball (gameState room)) = - 3"
    and n: "n \<le> 133"
  shows "\<exists>b. ticks rnd rid n s =
               s\<lparr>rooms := (rooms s)(rid \<mapsto> room\<lparr>gameState := (gameState room)\<lparr>ball := b\<rparr>\<rparr>)\<rparr> \<and>
             ball_x b = 400 - 3 * real n \<and> ball_vx b = - 3 \<and>
             ball_y b = (if n < 67 then 200 - 3 * real n else 3 * real n - 201) \<and>
             ball_vy b = (if n < 67 then - 3 else 3)"
  using n
proof (induction n)
  case 0
  have e2: "(rooms s)(rid \<mapsto> room) = rooms s" using room by (simp add: fun_upd_idem)
  show ?case
    using start by (intro exI [of _ "ball (gameState room)"]) (simp add: e2)
next
  case (Suc n)
  from Suc.prems have n: "n \<le> 133" by simp
  from Suc.IH [OF this] obtain b where b:
    "ticks rnd rid n s = s\<lparr>rooms := (rooms s)(rid \<mapsto> room\<lparr>gameState := (gameState room)\<lparr>ball := b\<rparr>\<rparr>)\<rparr>"
    "ball_x b = 400 - 3 * real n" "ball_vx b = - 3"
    "ball_y b = (if n < 67 then 200 - 3 * real n else 3 * real n - 201)"
    "ball_vy b = (if n < 67 then - 3 else 3)"
    by blast
  let ?room = "room\<lparr>gameState := (gameState room)\<lparr>ball := b\<rparr>\<rparr>"
  let ?s = "ticks rnd rid n s"
  let ?b1 = "bounceWalls (moveBall b)"
  note b1 = flight_step_down_first [OF b(2-5) n]
  obtain r1 r2 r3 where rnd: "rnd n = (r1, r2, r3)" by (cases "rnd n")
  have clear: "(Suc n < 120 \<or> 133 < Suc n) \<or> ball_y ?b1 + 20 < paddle_y (paddle pl) \<or>
      paddle_y (paddle pl) + 80 < ball_y ?b1"
    using left(3) Suc.prems unfolding b1(3) by (auto split: if_splits)
  have nohit: "hitLeftPaddle (Some (paddle pl)) ?b1 = ?b1"
    by (rule no_contact_left [OF left(2) b1(1) clear])
  have d: "deref ?room (players_left (gameState ?room)) = Some pl"
    using left(1) by (auto simp: deref_def split: option.splits)
  have pre: "rooms ?s rid = Some ?room" "gameActive (gameState ?room)"
    "ball_vx (ball (gameState ?room)) < 0"
    "0 \<le> ball_x (ball (gameState ?room)) + ball_vx (ball (gameState ?room))"
    "ball_x (ball (gameState ?room)) \<le> GAME_WIDTH"
    using b active Suc.prems by (simp_all add: game_consts)
  have nohit': "hitLeftPaddle (map_option paddle (deref ?room (players_left (gameState ?room))))
                  (bounceWalls (moveBall (ball (gameState ?room)))) =
                bounceWalls (moveBall (ball (gameState ?room)))"
    unfolding d using nohit by simp
  have "ticks rnd rid (Suc n) s =
          s\<lparr>rooms := (rooms s)(rid \<mapsto> room\<lparr>gameState := (gameState room)\<lparr>ball := ?b1\<rparr>\<rparr>)\<rparr>"
    using rnd updateBall_no_contact [OF pre nohit', of r1 r2 r3] by (simp add: b(1))
  with b1 show ?case by blast
qed

text \<open>The ball after \<open>n \<le> 133\<close> ticks, and no contact on the tick that follows.\<close>

lemma ticks_clear_flight:
  assumes room: "rooms s rid = Some room"
    and active: "gameActive (gameState room)"
    and left: "deref room (players_left (gameState room)) = Some pl"
      "paddle_x (paddle pl) = 20"
    and start: "ball_x (ball (gameState room)) = 400" "ball_y (ball (gameState room)) = 200"
      "ball_vx (ball (gameState room)) = - 3"
    and path: "ball_vy (ball (gameState room)) = 3 \<and>
                 (paddle_y (paddle pl) < 81 \<or> 220 < paddle_y (paddle pl)) \<or>
               ball_vy (ball (gameState room)) = - 3 \<and>
                 (paddle_y (paddle pl) < 79 \<or> 218 < paddle_y (paddle pl))"
    and n: "n \<le> 133"
  shows "\<exists>b. ticks rnd rid n s =
               s\<lparr>rooms := (rooms s)(rid \<mapsto> room\<lparr>gameState := (gameState room)\<lparr>ball := b\<rparr>\<rparr>)\<rparr> \<and>
             ball_x b = 400 - 3 * real n \<and> ball_vx b = - 3 \<and>
             hitLeftPaddle (Some (paddle pl)) (bounceWalls (moveBall b)) = bounceWalls (moveBall b)"
  using path
proof
  assume up: "ball_vy (ball (gameState room)) = 3 \<and>
                 (paddle_y (paddle pl) < 81 \<or> 220 < paddle_y (paddle pl))"
  then have vy: "ball_vy (ball (gameState room)) = 3"
    and py: "paddle_y (paddle pl) < 81 \<or> 220 < paddle_y (paddle pl)" by simp_all
  from ticks_flight_up_first [OF room active left py start vy n, of rnd] obtain b where b:
    "ticks rnd rid n s = s\<lparr>rooms := (rooms s)(rid \<mapsto> room\<lparr>gameState := (gameState room)\<lparr>ball := b\<rparr>\<rparr>)\<rparr>"
    "ball_x b = 400 - 3 * real n" "ball_vx b = - 3"
    "ball_y b = (if n < 60 then 200 + 3 * real n else 560 - 3 * real n)"
    "ball_vy b = (if n < 60 then 3 else - 3)"
    by blast
  note b1 = flight_step_up_first [OF b(2-5) n]
  have clear: "(Suc n < 120 \<or> 133 < Suc n) \<or>
      ball_y (bounceWalls (moveBall b)) + 20 < paddle_y (paddle pl) \<or>
      paddle_y (paddle pl) + 80 < ball_y (bounceWalls (moveBall b))"
    using py n unfolding b1(3) by (auto split: if_splits)
  from no_contact_left [OF left(2) b1(1) clear] b show ?thesis by blast
next
  assume down: "ball_vy (ball (gameState room)) = - 3 \<and>
                 (paddle_y (paddle pl) < 79 \<or> 218 < paddle_y (paddle pl))"
  then have vy: "ball_vy (ball (gameState room)) = - 3"
    and py: "paddle_y (paddle pl) < 79 \<or> 218 < paddle_y (paddle pl)" by simp_all
  from ticks_flight_down_first [OF room active left py start vy n, of rnd] obtain b where b:
    "ticks rnd rid n s = s\<lparr>rooms := (rooms s)(rid \<mapsto> room\<lparr>gameState := (gameState room)\<lparr>ball := b\<rparr>\<rparr>)\<rparr>"
    "ball_x b = 400 - 3 * real n" "ball_vx b = - 3"
    "ball_y b = (if n < 67 then 200 - 3 * real n else 3 * real n - 201)"
    "ball_vy b = (if n < 67 then - 3 else 3)"
    by blast
  note b1 = flight_step_down_first [OF b(2-5) n]
  have clear: "(Suc n < 120 \<or> 133 < Suc n) \<or>
      ball_y (bounceWalls (moveBall b)) + 20 < paddle_y (paddle pl) \<or>
      paddle_y (paddle pl) + 80 < ball_y (bounceWalls (moveBall b))"
    using py n unfolding b1(3) by (auto split: if_splits)
  from no_contact_left [OF left(2) b1(1) clear] b show ?thesis by blast
qed

lemma ticks_point_only_on_tick_134:
  assumes room: "rooms s rid = Some room"
    and active: "gameActive (gameState room)"
    and left: "deref room (players_left (gameState room)) = Some pl"
      "paddle_x (paddle pl) = 20"
    and start: "ball_x (ball (gameState room)) = 400" "ball_y (ball (gameState room)) = 200"
      "ball_vx (ball (gameState room)) = - 3"
    and path: "ball_vy (ball (gameState room)) = 3 \<and>
                 (paddle_y (paddle pl) < 81 \<or> 220 < paddle_y (paddle pl)) \<or>
               ball_vy (ball (gameState room)) = - 3 \<and>
                 (paddle_y (paddle pl) < 79 \<or> 218 < paddle_y (paddle pl))"
    and n: "n < 134" and rnd: "rnd n = (r1, r2, r3)"
  shows "fst (updateBall r1 r2 r3 rid (ticks rnd rid n s)) = (n = 133)"
proof -
  from n have "n \<le> 133" by simp
  from ticks_clear_flight [OF room active left start path this, of rnd] obtain b where
    b: "ticks rnd rid n s =
          s\<lparr>rooms := (rooms s)(rid \<mapsto> room\<lparr>gameState := (gameState room)\<lparr>ball := b\<rparr>\<rparr>)\<rparr>"
       "ball_x b = 400 - 3 * real n" "ball_vx b = - 3"
       "hitLeftPaddle (Some (paddle pl)) (bounceWalls (moveBall b)) = bounceWalls (moveBall b)"
    by blast
  let ?room = "room\<lparr>gameState := (gameState room)\<lparr>ball := b\<rparr>\<rparr>"
  let ?s = "ticks rnd rid n s"
  have d: "deref ?room (players_left (gameState ?room)) = Some pl"
    using left(1) by (auto simp: deref_def split: option.splits)
  have nohit: "hitLeftPaddle (map_option paddle (deref ?room (players_left (gameState ?room))))
                  (bounceWalls (moveBall (ball (gameState ?room)))) =
                bounceWalls (moveBall (ball (gameState ?room)))"
    unfolding d using b(4) by simp
  show ?thesis
  proof (cases "n = 133")
    case False
    with n have n': "n \<le> 132" by simp
    have pre: "rooms ?s rid = Some ?room" "gameActive (gameState ?room)"
      "ball_vx (ball (gameState ?room)) < 0"
      "0 \<le> ball_x (ball (gameState ?room)) + ball_vx (ball (gameState ?room))"
      "ball_x (ball (gameState ?room)) \<le> GAME_WIDTH"
      using b active n' by (simp_all add: game_consts)
    from updateBall_no_contact [OF pre nohit, of r1 r2 r3] False show ?thesis by simp
  next
    case True
    define b1 where "b1 = bounceWalls (moveBall b)"
    have b1: "ball_x b1 = - 2" "ball_vx b1 = - 3"
      using b True by (simp_all add: b1_def bounceWalls_def moveBall_def)
    have r: "hitRightPaddle rp b1 = b1" for rp
      using b1 by (cases rp) (simp_all add: hitRightPaddle_def)
    have rm: "rooms ?s rid = Some ?room" by (simp add: b(1))
    have "fst (updateBall r1 r2 r3 rid ?s)"
      using active b1 nohit [folded b1_def]
      by (simp add: updateBall_def Let_def rm b1_def [symmetric] r)
    with True show ?thesis by simp
  qed
qed

section \<open>The claims\<close>

subsection \<open>Pairing\<close>

text \<open>
  Claim C1. Two distinct ids \<open>A\<close> and \<open>B\<close> join in this order, the queue being empty
  and neither id being mapped. The first call queues \<open>A\<close> and creates no room; the second
  call writes exactly one room into the registry, under the new room id, with \<open>A\<close> as the
  left player and \<open>B\<close> as the right player, and maps both ids to that room.
\<close>

theorem addPlayer_pairs_waiting_left_joining_right:
  assumes distinct: "A \<noteq> B"
    and queue: "waitingPlayers s = []"
    and unmappedA: "playerToRoom s A = None"
    and unmappedB: "playerToRoom s B = None"
    and joinA: "addPlayer nowA sfxA a1 a2 A s = (resA, s1)"
    and joinB: "addPlayer now sfx r1 r2 B s1 = (resB, s2)"
  shows "resA = None \<and> rooms s1 = rooms s \<and>
         resB = Some \<lparr>res_roomId = newRoomId now sfx, res_side = Right,
                       isNewGame = True, waitingPlayerId = Some A\<rparr> \<and>
         (\<exists>room pa pb.
            rooms s2 = (rooms s)(newRoomId now sfx \<mapsto> room) \<and>
            room_id room = newRoomId now sfx \<and>
            players room = [(A, pa), (B, pb)] \<and>
            pid pa = A \<and> side pa = Left \<and> pid pb = B \<and> side pb = Right \<and>
            players_left (gameState room) = Some A \<and>
            players_right (gameState room) = Some B) \<and>
         playerToRoom s2 = (playerToRoom s)(A \<mapsto> newRoomId now sfx, B \<mapsto> newRoomId now sfx) \<and>
         waitingPlayers s2 = []"
proof -
  have exA: "existingPlayer s A = None"
    using unmappedA by (simp add: existingPlayer_def)
  have s1: "s1 = s\<lparr>waitingPlayers := [A]\<rparr>" and resA: "resA = None"
    using joinA exA queue unmappedA
    by (auto simp: addPlayer_def cleanInvalidMapping_def)
  have exB: "existingPlayer s1 B = None"
    using unmappedB s1 by (simp add: existingPlayer_def)
  show ?thesis
    using joinB exB s1 resA distinct unmappedB
    by (auto simp: addPlayer_def cleanInvalidMapping_def createPlayer_def Let_def)
qed

text \<open>
  The theorem at the ids \<open>alice\<close> and \<open>bob\<close>, from a new manager.
\<close>

theorem addPlayer_pairs_witness:
  "''alice'' \<noteq> ''bob'' \<and>
   waitingPlayers newGameManager = [] \<and>
   playerToRoom newGameManager ''alice'' = None \<and>
   playerToRoom newGameManager ''bob'' = None \<and>
   fst (addPlayer ''1700000000007'' ''abcdefghi'' 0.1 0.9 ''alice'' newGameManager) = None \<and>
   fst (addPlayer ''1700000000123'' ''k3x9q2m1z'' 0.7 0.2 ''bob''
         (snd (addPlayer ''1700000000007'' ''abcdefghi'' 0.1 0.9 ''alice'' newGameManager))) =
     Some \<lparr>res_roomId = ''room_1700000000123_k3x9q2m1z'', res_side = Right,
           isNewGame = True, waitingPlayerId = Some ''alice''\<rparr> \<and>
   playerToRoom demoMatch =
     [''alice'' \<mapsto> ''room_1700000000123_k3x9q2m1z'', ''bob'' \<mapsto> ''room_1700000000123_k3x9q2m1z''] \<and>
   (\<exists>room. rooms demoMatch = [''room_1700000000123_k3x9q2m1z'' \<mapsto> room] \<and>
      map fst (players room) = [''alice'', ''bob'']) \<and>
   waitingPlayers demoMatch = []"
proof -
  have h1: "''alice'' \<noteq> ''bob''" by simp
  have h2: "waitingPlayers newGameManager = []"
    and h3: "playerToRoom newGameManager ''alice'' = None"
    and h4: "playerToRoom newGameManager ''bob'' = None"
    by (simp_all add: newGameManager_def)
  note inst = addPlayer_pairs_waiting_left_joining_right [OF h1 h2 h3 h4 surjective_pairing surjective_pairing,
      of "''1700000000007''" "''abcdefghi''" "0.1" "0.9" "''1700000000123''" "''k3x9q2m1z''" "0.7" "0.2"]
  have rid: "newRoomId ''1700000000123'' ''k3x9q2m1z'' = ''room_1700000000123_k3x9q2m1z''"
    by (simp add: newRoomId_def)
  from inst show ?thesis
    unfolding demoMatch_def [symmetric] rid
    by (auto simp: h2 h3 h4 newGameManager_def)
qed

subsection \<open>Forfeit\<close>

text \<open>
  Claim C2. In a state that satisfies the invariant, let both slots of a room be connected
  and let one of its two players leave. The room stays in the registry, the game is no
  longer active, the winner is the id of the player in the other slot, and the tick
  interval is stopped: the handle the room held before the call, if it held one, is no
  longer scheduled; the room still holds the same handle, and no timer was added.
\<close>

theorem removePlayer_forfeit:
  assumes inv: "managerInv s"
    and room: "rooms s roomId = Some room"
    and both: "bothPlayersConnected roomId s"
    and player: "map_of (players room) P = Some pl"
    and remove: "removePlayer P s = (res, s')"
  shows "\<exists>room' q.
           rooms s' roomId = Some room' \<and>
           deref room (slotOf (opposite (side pl)) (gameState room)) = Some q \<and>
           winner (gameState room') = Some (pid q) \<and>
           \<not> gameActive (gameState room') \<and>
           gameLoopIntervalId room' = gameLoopIntervalId room \<and>
           (\<forall>h. gameLoopIntervalId room = Some h \<longrightarrow> h \<notin> intervals s') \<and>
           intervals s' \<subseteq> intervals s \<and>
           (\<forall>h. gameLoopIntervalId room' = Some h \<longrightarrow> h \<notin> intervals s') \<and>
           res = Some \<lparr>rem_roomId = roomId, disconnectedSide = side pl\<rparr>"
proof -
  from inv room obtain a pa b pb where r:
    "roomId \<noteq> []"
    "players room = [(a, pa), (b, pb)]" "a \<noteq> b"
    "pid pa = a" "pid pb = b" "side pa = Left" "side pb = Right"
    "players_left (gameState room) = (if connected pa then Some a else None)"
    "players_right (gameState room) = (if connected pb then Some b else None)"
    "connected pa = (playerToRoom s a = Some roomId)"
    "connected pb = (playerToRoom s b = Some roomId)"
    by (rule managerInv_roomD)
  have conn: "connected pa" "connected pb"
    using both room r
    by (auto simp: bothPlayersConnected_def deref_def split: if_splits option.splits)
  have P: "P = a \<and> pl = pa \<or> P = b \<and> pl = pb"
    using player r by (auto split: if_splits)
  have mapped: "playerToRoom s P = Some roomId"
    using P conn r by auto
  have notq: "P \<notin> set (waitingPlayers s)"
    using managerInv_queuedD [OF inv] mapped by auto
  from P show ?thesis
  proof
    assume "P = a \<and> pl = pa"
    then show ?thesis
      using remove notq mapped room r conn
      by (auto simp: removePlayer_def Let_def setSlot_def deref_def clearInterval_def
          split: option.splits)
  next
    assume "P = b \<and> pl = pb"
    then show ?thesis
      using remove notq mapped room r conn
      by (auto simp: removePlayer_def Let_def setSlot_def deref_def clearInterval_def
          split: option.splits)
  qed
qed

text \<open>
  The theorem at \<open>demoPlaying\<close>, where \<open>alice\<close> leaves.
\<close>

theorem removePlayer_forfeit_witness:
  "managerInv demoPlaying \<and>
   rooms demoPlaying demoRoomId = Some demoRoom \<and>
   bothPlayersConnected demoRoomId demoPlaying \<and>
   map_of (players demoRoom) ''alice'' = Some (createPlayer ''alice'' Left) \<and>
   gameLoopIntervalId demoRoom = Some 7 \<and> 7 \<in> intervals demoPlaying \<and>
   (\<exists>room'. rooms (snd (removePlayer ''alice'' demoPlaying)) demoRoomId = Some room' \<and>
      winner (gameState room') = Some ''bob'' \<and> \<not> gameActive (gameState room') \<and>
      gameLoopIntervalId room' = Some 7) \<and>
   7 \<notin> intervals (snd (removePlayer ''alice'' demoPlaying)) \<and>
   fst (removePlayer ''alice'' demoPlaying) =
     Some \<lparr>rem_roomId = demoRoomId, disconnectedSide = Left\<rparr>"
proof -
  have h2: "rooms demoPlaying demoRoomId = Some demoRoom"
    by (simp add: demoPlaying_def)
  have h4: "map_of (players demoRoom) ''alice'' = Some (createPlayer ''alice'' Left)"
    and h5: "gameLoopIntervalId demoRoom = Some 7"
    by (simp_all add: demoRoom_def)
  have h6: "7 \<in> intervals demoPlaying" by (simp add: demoPlaying_def)
  note inst = removePlayer_forfeit [OF demoPlaying_inv h2 demoPlaying_connected h4 surjective_pairing]
  have side: "side (createPlayer ''alice'' Left) = Left" by (simp add: createPlayer_def)
  have q: "deref demoRoom (slotOf (opposite Left) (gameState demoRoom)) = Some (createPlayer ''bob'' Right)"
    by (simp add: deref_def demoRoom_def)
  have pb: "pid (createPlayer ''bob'' Right) = ''bob''" by (simp add: createPlayer_def)
  from inst show ?thesis
    unfolding side q h5
    using demoPlaying_inv h2 demoPlaying_connected h4 h6 pb by auto
qed

subsection \<open>Winning by points\<close>

text \<open>
  Claim C3, as amended. One tick \<open>updateBall\<close> on an active room ends the game (the
  active flag is false after it) if and only if a slot scored on this tick (its score went
  up by one) and its score is then five or more. Whenever a slot scores its way to five or
  more, the winner after the tick is the id of that scorer. A tick that does not end the
  game leaves the winner as it was.
\<close>

theorem updateBall_ends_game_iff_winning_point:
  assumes room: "rooms s roomId = Some room"
    and active: "gameActive (gameState room)"
    and tick: "updateBall r1 r2 r3 roomId s = (scored, s')"
  shows "\<exists>room'. rooms s' roomId = Some room' \<and>
           ((\<not> gameActive (gameState room')) =
              (\<exists>k p p'. (players_left (gameState room) = Some k \<or> players_right (gameState room) = Some k) \<and>
                 map_of (players room) k = Some p \<and> map_of (players room') k = Some p' \<and>
                 score p' = score p + 1 \<and> score p' \<ge> 5)) \<and>
           (\<forall>k p p'. (players_left (gameState room) = Some k \<or> players_right (gameState room) = Some k) \<and>
                 map_of (players room) k = Some p \<and> map_of (players room') k = Some p' \<and>
                 score p' = score p + 1 \<and> score p' \<ge> 5 \<longrightarrow>
                 winner (gameState room') = Some (pid p') \<and> pid p' = pid p) \<and>
           (gameActive (gameState room') \<longrightarrow> winner (gameState room') = winner (gameState room))"
proof -
  define gs where "gs = gameState room"
  define b where "b = hitRightPaddle (map_option paddle (deref room (players_right gs)))
     (hitLeftPaddle (map_option paddle (deref room (players_left gs))) (bounceWalls (moveBall (ball gs))))"
  define room1 where "room1 = room\<lparr>gameState := gs\<lparr>ball := b\<rparr>\<rparr>"
  have r1: "gameActive (gameState room1)" "players room = players room1"
    "players_left (gameState room) = players_left (gameState room1)"
    "players_right (gameState room) = players_right (gameState room1)"
    "winner (gameState room) = winner (gameState room1)"
    using active by (simp_all add: room1_def gs_def)
  consider (right) "ball_x b < 0" | (left) "\<not> ball_x b < 0" "ball_x b > GAME_WIDTH"
    | (none) "\<not> ball_x b < 0" "\<not> ball_x b > GAME_WIDTH" by blast
  then show ?thesis
  proof cases
    case right
    have "s' = s\<lparr>rooms := (rooms s)(roomId \<mapsto> scorePoint r1 r2 r3 (players_right gs) room1)\<rparr>"
      using tick room active right
      by (simp add: updateBall_def Let_def gs_def [symmetric] b_def [symmetric] room1_def [symmetric])
    then have "rooms s' roomId = Some (scorePoint r1 r2 r3 (players_right gs) room1)" by simp
    moreover have "players_right gs = players_left (gameState room1) \<or>
                   players_right gs = players_right (gameState room1)"
      by (simp add: room1_def)
    ultimately show ?thesis
      using scorePoint_win_iff [OF r1(1) _ r1(2-5) refl, of "players_right gs" r1 r2 r3] by blast
  next
    case left
    have "s' = s\<lparr>rooms := (rooms s)(roomId \<mapsto> scorePoint r1 r2 r3 (players_left gs) room1)\<rparr>"
      using tick room active left
      by (simp add: updateBall_def Let_def gs_def [symmetric] b_def [symmetric] room1_def [symmetric])
    then have "rooms s' roomId = Some (scorePoint r1 r2 r3 (players_left gs) room1)" by simp
    moreover have "players_left gs = players_left (gameState room1) \<or>
                   players_left gs = players_right (gameState room1)"
      by (simp add: room1_def)
    ultimately show ?thesis
      using scorePoint_win_iff [OF r1(1) _ r1(2-5) refl, of "players_left gs" r1 r2 r3] by blast
  next
    case none
    have "s' = s\<lparr>rooms := (rooms s)(roomId \<mapsto> room1)\<rparr>"
      using tick room active none
      by (simp add: updateBall_def Let_def gs_def [symmetric] b_def [symmetric] room1_def [symmetric])
    then have rm: "rooms s' roomId = Some room1" by simp
    have no: "\<not> (map_of (players room) k = Some p \<and> map_of (players room1) k = Some p' \<and>
        score p' = score p + 1)" for k p p'
      unfolding r1(2) by auto
    have "gameActive (gameState room1)" "winner (gameState room1) = winner (gameState room)"
      using r1 by simp_all
    with no rm show ?thesis by blast
  qed
qed

text \<open>
  The theorem at \<open>demoMatchPoint\<close>: the right player scores a fifth point.
\<close>

theorem updateBall_ends_game_witness:
  "rooms demoMatchPoint demoRoomId =
     Some (demoRoom\<lparr>gameState := (gameState demoRoom)
                    \<lparr>ball := \<lparr>ball_x = 1, ball_y = 200, ball_vx = - 3, ball_vy = 3\<rparr>\<rparr>,
                 players := [(''alice'', createPlayer ''alice'' Left),
                             (''bob'', (createPlayer ''bob'' Right)\<lparr>score := 4\<rparr>)]\<rparr>) \<and>
   gameActive (gameState demoRoom) \<and>
   (\<exists>room' p'.
      rooms (snd (updateBall 0.9 0.9 0.9 demoRoomId demoMatchPoint)) demoRoomId = Some room' \<and>
      \<not> gameActive (gameState room') \<and>
      map_of (players room') ''bob'' = Some p' \<and> score p' = 5 \<and>
      winner (gameState room') = Some ''bob'')"
proof -
  let ?room = "demoRoom\<lparr>gameState := (gameState demoRoom)
                    \<lparr>ball := \<lparr>ball_x = 1, ball_y = 200, ball_vx = - 3, ball_vy = 3\<rparr>\<rparr>,
                 players := [(''alice'', createPlayer ''alice'' Left),
                             (''bob'', (createPlayer ''bob'' Right)\<lparr>score := 4\<rparr>)]\<rparr>"
  have h1: "rooms demoMatchPoint demoRoomId = Some ?room"
    by (simp add: demoMatchPoint_def demoPlaying_def)
  have h2: "gameActive (gameState ?room)" and h2': "gameActive (gameState demoRoom)"
    by (simp_all add: demoRoom_def)
  have ev: "\<exists>room' p'.
      rooms (snd (updateBall 0.9 0.9 0.9 demoRoomId demoMatchPoint)) demoRoomId = Some room' \<and>
      \<not> gameActive (gameState room') \<and>
      map_of (players room') ''bob'' = Some p' \<and> score p' = 5 \<and>
      winner (gameState room') = Some ''bob''"
    by (simp add: demo_match_point_tick)
  from updateBall_ends_game_iff_winning_point [OF h1 h2 surjective_pairing, of "0.9" "0.9" "0.9"]
  show ?thesis
    using h1 h2' ev by simp
qed

text \<open>
  Claim C3 as stated fails: a game also ends with a winner by forfeit. When \<open>alice\<close>
  leaves \<open>demoPlaying\<close>, the game is over and \<open>bob\<close> is the winner with a score of 0.
\<close>

theorem forfeit_winner_without_five_points_counterexample:
  "map_option (gameActive \<circ> gameState)
     (rooms (snd (removePlayer ''alice'' demoPlaying)) demoRoomId) = Some False \<and>
   map_option (winner \<circ> gameState)
     (rooms (snd (removePlayer ''alice'' demoPlaying)) demoRoomId) = Some (Some ''bob'') \<and>
   map_option (players_right \<circ> gameState)
     (rooms (snd (removePlayer ''alice'' demoPlaying)) demoRoomId) = Some (Some ''bob'') \<and>
   map_option pid (playerIn (snd (removePlayer ''alice'' demoPlaying)) demoRoomId ''bob'') =
     Some ''bob'' \<and>
   map_option score (playerIn (snd (removePlayer ''alice'' demoPlaying)) demoRoomId ''bob'') =
     Some 0"
  by (simp add: demo_alice_leaves playerIn_def) (simp add: demoRoom_def createPlayer_def)

subsection \<open>Joining twice\<close>

text \<open>
  Claim C4. In a state that satisfies the invariant, a join from an id that waits in the
  queue or is mapped to a room changes nothing: the queue holds the id at most once, no
  room is created, and a result, if any, names the room the id is mapped to and is not a
  new game.
\<close>

theorem addPlayer_idempotent_when_queued_or_assigned:
  assumes inv: "managerInv s"
    and known: "P \<in> set (waitingPlayers s) \<or> playerToRoom s P \<noteq> None"
    and join: "addPlayer now sfx r1 r2 P s = (res, s')"
  shows "s' = s \<and> count_list (waitingPlayers s') P \<le> 1 \<and>
         (\<forall>r. res = Some r \<longrightarrow> \<not> isNewGame r \<and> playerToRoom s P = Some (res_roomId r))"
proof -
  have cnt: "count_list (waitingPlayers s) P \<le> 1"
    using managerInv_queue_cases [OF inv] by auto
  show ?thesis
  proof (cases "existingPlayer s P")
    case (Some t)
    then obtain rid room pl where t: "existingPlayer s P = Some (rid, room, pl)"
      by (cases t) auto
    from addPlayer_rejoin_unchanged [OF inv t] join existingPlayer_SomeD [OF t] cnt
    show ?thesis by auto
  next
    case None
    then have un: "playerToRoom s P = None" by (rule existingPlayer_None_unmapped [OF inv])
    with known have q: "P \<in> set (waitingPlayers s)" by simp
    with managerInv_queue_cases [OF inv] have "waitingPlayers s = [P]" by auto
    with join None un cnt show ?thesis
      by (auto simp: addPlayer_def cleanInvalidMapping_def)
  qed
qed

text \<open>
  The theorem at \<open>demoQueued\<close>, for the waiting \<open>carol\<close> and for the playing \<open>alice\<close>.
\<close>

theorem addPlayer_idempotent_witness:
  "managerInv demoQueued \<and>
   ''carol'' \<in> set (waitingPlayers demoQueued) \<and>
   playerToRoom demoQueued ''alice'' \<noteq> None \<and>
   snd (addPlayer ''1700000000900'' ''qqqqqqqqq'' 0.6 0.4 ''carol'' demoQueued) = demoQueued \<and>
   snd (addPlayer ''1700000000901'' ''rrrrrrrrr'' 0.6 0.4 ''alice'' demoQueued) = demoQueued \<and>
   waitingPlayers demoQueued = [''carol'']"
proof -
  have h1: "''carol'' \<in> set (waitingPlayers demoQueued)"
    and h2: "playerToRoom demoQueued ''alice'' \<noteq> None"
    and h3: "waitingPlayers demoQueued = [''carol'']"
    by (simp_all add: demoQueued_def demoPlaying_def)
  note carol = addPlayer_idempotent_when_queued_or_assigned [OF demoQueued_inv disjI1 [OF h1] surjective_pairing]
  note alice = addPlayer_idempotent_when_queued_or_assigned [OF demoQueued_inv disjI2 [OF h2] surjective_pairing]
  from carol [of "''1700000000900''" "''qqqqqqqqq''" "0.6" "0.4"]
    alice [of "''1700000000901''" "''rrrrrrrrr''" "0.6" "0.4"]
  show ?thesis
    using demoQueued_inv h1 h2 h3 by simp
qed

subsection \<open>Both players leave\<close>

text \<open>
  Claim C5, as amended. In a state that satisfies the invariant, let both slots of a room be
  connected and let its two players leave, in either order. After the second call the room
  is out of the registry and neither id is mapped; the interval handle of the room is no
  longer scheduled after either call. After the first call the room is still registered,
  the game is over and the player who remains is its winner by forfeit.
\<close>

theorem removePlayer_both_leave:
  assumes inv: "managerInv s"
    and room: "rooms s roomId = Some room"
    and both: "bothPlayersConnected roomId s"
    and players: "map_of (players room) P = Some pl" "map_of (players room) Q = Some ql" "P \<noteq> Q"
    and first: "removePlayer P s = (res1, s1)"
    and second: "removePlayer Q s1 = (res2, s2)"
  shows "rooms s2 roomId = None \<and>
         playerToRoom s2 P = None \<and> playerToRoom s2 Q = None \<and>
         (\<forall>h. gameLoopIntervalId room = Some h \<longrightarrow> h \<notin> intervals s1 \<and> h \<notin> intervals s2) \<and>
         (\<exists>room1. rooms s1 roomId = Some room1 \<and>
                   winner (gameState room1) = Some Q \<and> \<not> gameActive (gameState room1)) \<and>
         res1 = Some \<lparr>rem_roomId = roomId, disconnectedSide = side pl\<rparr> \<and>
         res2 = Some \<lparr>rem_roomId = roomId, disconnectedSide = side ql\<rparr>"
proof -
  from inv room obtain a pa b pb where r:
    "roomId \<noteq> []"
    "players room = [(a, pa), (b, pb)]" "a \<noteq> b"
    "pid pa = a" "pid pb = b" "side pa = Left" "side pb = Right"
    "players_left (gameState room) = (if connected pa then Some a else None)"
    "players_right (gameState room) = (if connected pb then Some b else None)"
    "connected pa = (playerToRoom s a = Some roomId)"
    "connected pb = (playerToRoom s b = Some roomId)"
    by (rule managerInv_roomD)
  have conn: "connected pa" "connected pb"
    using both room r
    by (auto simp: bothPlayersConnected_def deref_def split: if_splits option.splits)
  have PQ: "P = a \<and> pl = pa \<and> Q = b \<and> ql = pb \<or> P = b \<and> pl = pb \<and> Q = a \<and> ql = pa"
    using players r by (auto split: if_splits)
  have notq: "a \<notin> set (waitingPlayers s)" "b \<notin> set (waitingPlayers s)"
    using managerInv_queuedD [OF inv] conn r by auto
  from PQ show ?thesis
  proof
    assume c: "P = a \<and> pl = pa \<and> Q = b \<and> ql = pb"
    have s1: "s1 = s\<lparr>intervals := clearInterval (gameLoopIntervalId room) (intervals s),
                      rooms := (rooms s)(roomId \<mapsto>
                         room\<lparr>players := [(a, pa\<lparr>connected := False\<rparr>), (b, pb)],
                              gameState := (gameState room)\<lparr>players_left := None,
                                   gameActive := False, winner := Some b\<rparr>\<rparr>),
                      playerToRoom := (playerToRoom s)(a := None)\<rparr>"
      and res1: "res1 = Some \<lparr>rem_roomId = roomId, disconnectedSide = side pl\<rparr>"
      using first c notq room r conn
      by (auto simp: removePlayer_def Let_def setSlot_def)
    show ?thesis
      using second c notq r conn res1 unfolding s1
      by (auto simp: removePlayer_def Let_def setSlot_def clearInterval_def split: option.splits)
  next
    assume c: "P = b \<and> pl = pb \<and> Q = a \<and> ql = pa"
    have s1: "s1 = s\<lparr>intervals := clearInterval (gameLoopIntervalId room) (intervals s),
                      rooms := (rooms s)(roomId \<mapsto>
                         room\<lparr>players := [(a, pa), (b, pb\<lparr>connected := False\<rparr>)],
                              gameState := (gameState room)\<lparr>players_right := None,
                                   gameActive := False, winner := Some a\<rparr>\<rparr>),
                      playerToRoom := (playerToRoom s)(b := None)\<rparr>"
      and res1: "res1 = Some \<lparr>rem_roomId = roomId, disconnectedSide = side pl\<rparr>"
      using first c notq room r conn
      by (auto simp: removePlayer_def Let_def setSlot_def)
    show ?thesis
      using second c notq r conn res1 unfolding s1
      by (auto simp: removePlayer_def Let_def setSlot_def clearInterval_def split: option.splits)
  qed
qed

text \<open>
  The theorem at \<open>demoPlaying\<close>, where \<open>bob\<close> leaves first.
\<close>

theorem removePlayer_both_leave_witness:
  "managerInv demoPlaying \<and>
   rooms demoPlaying demoRoomId = Some demoRoom \<and>
   bothPlayersConnected demoRoomId demoPlaying \<and>
   map_of (players demoRoom) ''bob'' = Some (createPlayer ''bob'' Right) \<and>
   map_of (players demoRoom) ''alice'' = Some (createPlayer ''alice'' Left) \<and>
   ''bob'' \<noteq> ''alice'' \<and>
   gameLoopIntervalId demoRoom = Some 7 \<and>
   rooms (snd (removePlayer ''alice'' (snd (removePlayer ''bob'' demoPlaying)))) demoRoomId = None \<and>
   7 \<notin> intervals (snd (removePlayer ''bob'' demoPlaying)) \<and>
   7 \<notin> intervals (snd (removePlayer ''alice'' (snd (removePlayer ''bob'' demoPlaying)))) \<and>
   playerToRoom (snd (removePlayer ''alice'' (snd (removePlayer ''bob'' demoPlaying)))) ''alice'' = None \<and>
   playerToRoom (snd (removePlayer ''alice'' (snd (removePlayer ''bob'' demoPlaying)))) ''bob'' = None"
proof -
  have h2: "rooms demoPlaying demoRoomId = Some demoRoom"
    by (simp add: demoPlaying_def)
  have h4: "map_of (players demoRoom) ''bob'' = Some (createPlayer ''bob'' Right)"
    and h5: "map_of (players demoRoom) ''alice'' = Some (createPlayer ''alice'' Left)"
    and h7: "gameLoopIntervalId demoRoom = Some 7"
    by (simp_all add: demoRoom_def)
  have h6: "''bob'' \<noteq> ''alice''" by simp
  note inst = removePlayer_both_leave [OF demoPlaying_inv h2 demoPlaying_connected h4 h5 h6
      surjective_pairing surjective_pairing]
  from inst show ?thesis
    using demoPlaying_inv h2 demoPlaying_connected h4 h5 h7 by simp
qed

text \<open>
  Claim C5 as stated fails on "no winner ever assigned": when \<open>alice\<close> and then \<open>bob\<close>
  leave \<open>demoPlaying\<close>, the room is deleted, and before that \<open>bob\<close> was its winner.
\<close>

theorem both_leave_winner_assigned_counterexample:
  "map_option (winner \<circ> gameState)
     (rooms (snd (removePlayer ''alice'' demoPlaying)) demoRoomId) = Some (Some ''bob'') \<and>
   rooms (snd (removePlayer ''bob'' (snd (removePlayer ''alice'' demoPlaying)))) demoRoomId = None"
  by (simp add: demo_alice_leaves)
     (simp add: removePlayer_def demo_defs createPlayer_def setSlot_def clearInterval_def Let_def)

subsection \<open>The ball leaves on the left\<close>

text \<open>
  Claim C6. A paddle is part of the player in a slot, and an active room has a player in
  both slots; no paddle is present where the ball passes when the left paddle is out of
  its path (the right paddle never meets a ball that moves left). So let both slots of an
  active room be occupied, the right player having score 0 and the left paddle standing at
  \<open>x = 20\<close>, and let the ball start at (400, 200) with \<open>vx = -3\<close> and the base vertical
  speed (all of which \<open>reachable_active_room\<close> proves of every active room of a reachable
  state, but the score and the position of the ball): \<open>vy = 3\<close> with \<open>paddle.y < 81\<close> or \<open>paddle.y > 220\<close> for the
  left paddle, or \<open>vy = -3\<close> with \<open>paddle.y < 79\<close> or \<open>paddle.y > 218\<close> (the positions at
  which the paddle misses the ball on the ticks 120 to 133, when the ball is over the
  paddle's column). After \<open>n < 134\<close>
  ticks the ball is at \<open>x = 400 - 3 n\<close>, which is not negative, and the score is still 0.
  \<open>updateBall\<close> reports a point on tick 134 and on no tick before it: there the ball
  crosses \<open>x < 0\<close>, the score of the right player becomes 1 and the ball is back at
  (400, 200), with a vertical speed of at least 1.5.
\<close>

theorem ball_crosses_left_edge_after_134_ticks:
  assumes room: "rooms s rid = Some room"
    and active: "gameActive (gameState room)"
    and left: "players_left (gameState room) = Some kl" "map_of (players room) kl = Some pl"
      "paddle_x (paddle pl) = 20"
    and right: "players_right (gameState room) = Some k" "map_of (players room) k = Some p"
      "score p = 0"
    and start: "ball_x (ball (gameState room)) = 400" "ball_y (ball (gameState room)) = 200"
      "ball_vx (ball (gameState room)) = - 3"
    and path: "ball_vy (ball (gameState room)) = 3 \<and>
                 (paddle_y (paddle pl) < 81 \<or> 220 < paddle_y (paddle pl)) \<or>
               ball_vy (ball (gameState room)) = - 3 \<and>
                 (paddle_y (paddle pl) < 79 \<or> 218 < paddle_y (paddle pl))"
  shows "(\<forall>n<134. \<exists>room_n p_n.
            rooms (ticks rnd rid n s) rid = Some room_n \<and>
            ball_x (ball (gameState room_n)) = 400 - 3 * real n \<and>
            0 \<le> ball_x (ball (gameState room_n)) \<and>
            map_of (players room_n) k = Some p_n \<and> score p_n = 0) \<and>
         (\<forall>n<134. case rnd n of (r1, r2, r3) \<Rightarrow>
            fst (updateBall r1 r2 r3 rid (ticks rnd rid n s)) = (n = 133)) \<and>
         (\<exists>room' p'.
            rooms (ticks rnd rid 134 s) rid = Some room' \<and>
            map_of (players room') k = Some p' \<and> score p' = 1 \<and>
            ball_x (ball (gameState room')) = 400 \<and> ball_y (ball (gameState room')) = 200 \<and>
            \<bar>ball_vy (ball (gameState room'))\<bar> \<ge> 3 / 2)"
proof (intro conjI)
  have dl: "deref room (players_left (gameState room)) = Some pl"
    using left(1,2) by (simp add: deref_def)
  note flight = ticks_clear_flight [OF room active dl left(3) start path]
  show "\<forall>n<134. \<exists>room_n p_n.
            rooms (ticks rnd rid n s) rid = Some room_n \<and>
            ball_x (ball (gameState room_n)) = 400 - 3 * real n \<and>
            0 \<le> ball_x (ball (gameState room_n)) \<and>
            map_of (players room_n) k = Some p_n \<and> score p_n = 0"
  proof (intro allI impI)
    fix n :: nat assume "n < 134"
    then have n: "n \<le> 133" by simp
    from flight [OF n, of rnd] obtain b where
      b: "ticks rnd rid n s =
            s\<lparr>rooms := (rooms s)(rid \<mapsto> room\<lparr>gameState := (gameState room)\<lparr>ball := b\<rparr>\<rparr>)\<rparr>"
         "ball_x b = 400 - 3 * real n"
      by blast
    have "0 \<le> 400 - 3 * real n" using n by simp
    with b right show "\<exists>room_n p_n.
            rooms (ticks rnd rid n s) rid = Some room_n \<and>
            ball_x (ball (gameState room_n)) = 400 - 3 * real n \<and>
            0 \<le> ball_x (ball (gameState room_n)) \<and>
            map_of (players room_n) k = Some p_n \<and> score p_n = 0"
      by simp
  qed
  show "\<forall>n<134. case rnd n of (r1, r2, r3) \<Rightarrow>
            fst (updateBall r1 r2 r3 rid (ticks rnd rid n s)) = (n = 133)"
  proof (intro allI impI)
    fix n :: nat assume n: "n < 134"
    obtain r1 r2 r3 where rnd: "rnd n = (r1, r2, r3)" by (cases "rnd n")
    from ticks_point_only_on_tick_134 [where rnd = rnd, OF room active dl left(3) start path n rnd]
    show "case rnd n of (r1, r2, r3) \<Rightarrow>
            fst (updateBall r1 r2 r3 rid (ticks rnd rid n s)) = (n = 133)"
      by (simp add: rnd)
  qed
  have "(133::nat) \<le> 133" by simp
  from flight [OF this, of rnd] obtain b where
    b0: "ticks rnd rid 133 s =
          s\<lparr>rooms := (rooms s)(rid \<mapsto> room\<lparr>gameState := (gameState room)\<lparr>ball := b\<rparr>\<rparr>)\<rparr>"
       "ball_x b = 400 - 3 * real (133::nat)" "ball_vx b = - 3"
       "hitLeftPaddle (Some (paddle pl)) (bounceWalls (moveBall b)) = bounceWalls (moveBall b)"
    by blast
  have bx: "ball_x b = 1" using b0(2) by simp
  let ?room = "room\<lparr>gameState := (gameState room)\<lparr>ball := b\<rparr>\<rparr>"
  let ?s = "ticks rnd rid 133 s"
  obtain r1 r2 r3 where rnd: "rnd 133 = (r1, r2, r3)" by (cases "rnd 133")
  define b1 where "b1 = bounceWalls (moveBall b)"
  have b1: "ball_x b1 = - 2" "ball_vx b1 = - 3"
    using bx b0(3) by (simp_all add: b1_def bounceWalls_def moveBall_def)
  have l: "hitLeftPaddle (Some (paddle pl)) b1 = b1"
    using b0(4) by (simp add: b1_def)
  have r: "hitRightPaddle rp b1 = b1" for rp
    using b1 by (cases rp) (simp_all add: hitRightPaddle_def)
  let ?room1 = "?room\<lparr>gameState := (gameState ?room)\<lparr>ball := b1\<rparr>\<rparr>"
  have step: "updateBall r1 r2 r3 rid ?s =
      (True, ?s\<lparr>rooms := (rooms ?s)(rid \<mapsto> scorePoint r1 r2 r3 (Some k) ?room1)\<rparr>)"
    using active right(1) b1 left(1,2)
    by (simp add: updateBall_def Let_def b0(1) b1_def [symmetric] deref_def l r)
  have sp: "scorePoint r1 r2 r3 (Some k) ?room1 =
      ?room1\<lparr>players := AList.update k (p\<lparr>score := score p + 1\<rparr>) (players ?room1),
             gameState := (resetBall r1 r2 r3 (gameState ?room1))
               \<lparr>winner := (if score p + 1 \<ge> 5 then Some (pid p) else winner (gameState ?room1)),
                gameActive := (if score p + 1 \<ge> 5 then False else gameActive (gameState ?room1))\<rparr>\<rparr>"
    using right(2) by (intro scorePoint_player) simp_all
  have "ticks rnd rid 134 s = snd (updateBall r1 r2 r3 rid ?s)"
    using ticks.simps(2) [of rnd rid 133 s] rnd by simp
  then have final: "rooms (ticks rnd rid 134 s) rid = Some (scorePoint r1 r2 r3 (Some k) ?room1)"
    by (simp add: step)
  have vy: "\<bar>ball_vy (ball (resetBall r1 r2 r3 gs))\<bar> \<ge> 3 / 2" for gs
    using resetBall_ball(4) [of r1 r2 r3 gs] by simp
  show "\<exists>room' p'.
            rooms (ticks rnd rid 134 s) rid = Some room' \<and>
            map_of (players room') k = Some p' \<and> score p' = 1 \<and>
            ball_x (ball (gameState room')) = 400 \<and> ball_y (ball (gameState room')) = 200 \<and>
            \<bar>ball_vy (ball (gameState room'))\<bar> \<ge> 3 / 2"
    unfolding final sp
    using right(3) vy
    by (simp add: map_of_update_cases resetBall_ball)
qed

text \<open>
  The theorem at \<open>demoClearPath\<close>, a reachable state (\<open>demoClearPath_reachable\<close>).
\<close>

theorem ball_crosses_left_edge_witness:
  "rooms demoClearPath demoRoomId = Some demoClearRoom \<and>
   gameActive (gameState demoClearRoom) \<and>
   players_left (gameState demoClearRoom) = Some ''alice'' \<and>
   map_of (players demoClearRoom) ''alice'' =
     Some ((createPlayer ''alice'' Left)\<lparr>paddle := \<lparr>paddle_x = 20, paddle_y = 72\<rparr>\<rparr>) \<and>
   players_right (gameState demoClearRoom) = Some ''bob'' \<and>
   map_of (players demoClearRoom) ''bob'' = Some (createPlayer ''bob'' Right) \<and>
   score (createPlayer ''bob'' Right) = 0 \<and>
   ball (gameState demoClearRoom) = \<lparr>ball_x = 400, ball_y = 200, ball_vx = - 3, ball_vy = 3\<rparr> \<and>
   (\<exists>room' p'.
      rooms (ticks demoRandom demoRoomId 134 demoClearPath) demoRoomId = Some room' \<and>
      map_of (players room') ''bob'' = Some p' \<and> score p' = 1 \<and>
      ball_x (ball (gameState room')) = 400 \<and> ball_y (ball (gameState room')) = 200 \<and>
      \<bar>ball_vy (ball (gameState room'))\<bar> \<ge> 3 / 2)"
proof -
  let ?pl = "(createPlayer ''alice'' Left)\<lparr>paddle := \<lparr>paddle_x = 20, paddle_y = 72\<rparr>\<rparr>"
  have h1: "rooms demoClearPath demoRoomId = Some demoClearRoom"
    by (simp add: demoClearPath_def)
  have h: "gameActive (gameState demoClearRoom)"
    "players_left (gameState demoClearRoom) = Some ''alice''"
    "map_of (players demoClearRoom) ''alice'' = Some ?pl"
    "players_right (gameState demoClearRoom) = Some ''bob''"
    "map_of (players demoClearRoom) ''bob'' = Some (createPlayer ''bob'' Right)"
    "ball (gameState demoClearRoom) = \<lparr>ball_x = 400, ball_y = 200, ball_vx = - 3, ball_vy = 3\<rparr>"
    by (simp_all add: demoClearRoom_def demoRoom_def)
  have px: "paddle_x (paddle ?pl) = 20" by simp
  have sc: "score (createPlayer ''bob'' Right) = 0"
    by (simp add: createPlayer_def)
  have st: "ball_x (ball (gameState demoClearRoom)) = 400"
    "ball_y (ball (gameState demoClearRoom)) = 200"
    "ball_vx (ball (gameState demoClearRoom)) = - 3"
    by (simp_all add: h(6))
  have path: "ball_vy (ball (gameState demoClearRoom)) = 3 \<and>
                 (paddle_y (paddle ?pl) < 81 \<or> 220 < paddle_y (paddle ?pl)) \<or>
               ball_vy (ball (gameState demoClearRoom)) = - 3 \<and>
                 (paddle_y (paddle ?pl) < 79 \<or> 218 < paddle_y (paddle ?pl))"
    by (simp add: h(6))
  from ball_crosses_left_edge_after_134_ticks [OF h1 h(1,2,3) px h(4,5) sc st path, of demoRandom]
  show ?thesis
    using h1 h sc by blast
qed

subsection \<open>Paddles stay in the field\<close>

text \<open>
  Claim C7. A player of a room whose paddle is at a height in [0, 320] still has it in
  [0, 320], which is [0, \<open>GAME_HEIGHT - PADDLE_HEIGHT\<close>], after any finite sequence of
  move intents, by this or any other player, in any order of directions.
\<close>

theorem movePaddles_paddle_in_field:
  assumes room: "rooms s rid = Some room"
    and pl: "map_of (players room) k = Some pl"
    and range: "0 \<le> paddle_y (paddle pl)" "paddle_y (paddle pl) \<le> 320"
  shows "\<exists>room' pl'. rooms (movePaddles ms s) rid = Some room' \<and>
           map_of (players room') k = Some pl' \<and>
           0 \<le> paddle_y (paddle pl') \<and>
           paddle_y (paddle pl') \<le> GAME_HEIGHT - PADDLE_HEIGHT \<and>
           GAME_HEIGHT - PADDLE_HEIGHT = 320"
  using assms
proof (induction ms arbitrary: s room pl)
  case Nil
  then show ?case by (simp add: game_consts)
next
  case (Cons m ms)
  obtain p d where m: "m = (p, d)" by (cases m)
  from movePaddle_paddle_range [OF Cons.prems, of p d] obtain room1 pl1 where
    step: "rooms (snd (movePaddle p d s)) rid = Some room1"
      "map_of (players room1) k = Some pl1"
      "0 \<le> paddle_y (paddle pl1)" "paddle_y (paddle pl1) \<le> 320"
    by blast
  from Cons.IH [OF step] m show ?case by simp
qed

text \<open>
  The theorem at \<open>demoPlaying\<close>, for a sequence of four moves.
\<close>

theorem movePaddles_witness:
  "rooms demoPlaying demoRoomId = Some demoRoom \<and>
   map_of (players demoRoom) ''alice'' = Some (createPlayer ''alice'' Left) \<and>
   0 \<le> paddle_y (paddle (createPlayer ''alice'' Left)) \<and>
   paddle_y (paddle (createPlayer ''alice'' Left)) \<le> 320 \<and>
   (\<exists>room' pl'.
      rooms (movePaddles [(''alice'', Up), (''alice'', Up), (''bob'', Down), (''alice'', Down)] demoPlaying)
        demoRoomId = Some room' \<and>
      map_of (players room') ''alice'' = Some pl' \<and>
      0 \<le> paddle_y (paddle pl') \<and> paddle_y (paddle pl') \<le> 320)"
proof -
  have h1: "rooms demoPlaying demoRoomId = Some demoRoom"
    by (simp add: demoPlaying_def)
  have h2: "map_of (players demoRoom) ''alice'' = Some (createPlayer ''alice'' Left)"
    by (simp add: demoRoom_def)
  have h3: "0 \<le> paddle_y (paddle (createPlayer ''alice'' Left))"
    and h4: "paddle_y (paddle (createPlayer ''alice'' Left)) \<le> 320"
    by (simp_all add: createPlayer_def game_consts)
  from movePaddles_paddle_in_field [OF h1 h2 h3 h4,
      of "[(''alice'', Up), (''alice'', Up), (''bob'', Down), (''alice'', Down)]"]
  show ?thesis
    using h1 h2 h3 h4 by (simp add: game_consts)
qed

subsection \<open>No room with the same player twice\<close>

text \<open>
  Claim C8. When a join that reaches the queue finds its own id at the head, the id goes
  back to the end of the queue, no room is created and the call returns \<open>null\<close>. Whenever
  a join creates a room, the waiting id it was paired with differs from the joining id:
  the left and the right player of the new room have different ids.
\<close>

theorem addPlayer_never_pairs_with_self:
  assumes join: "addPlayer now sfx r1 r2 P s = (res, s')"
  shows "(existingPlayer s P = None \<and> waitingPlayers s \<noteq> [] \<and> hd (waitingPlayers s) = P \<longrightarrow>
            res = None \<and> rooms s' = rooms s \<and>
            waitingPlayers s' = tl (waitingPlayers s) @ [P]) \<and>
         (\<forall>r. res = Some r \<and> isNewGame r \<longrightarrow>
            (\<exists>w pa pb room.
               waitingPlayerId r = Some w \<and> w \<noteq> P \<and>
               rooms s' (res_roomId r) = Some room \<and>
               players room = [(w, pa), (P, pb)] \<and> pid pa = w \<and> pid pb = P \<and>
               players_left (gameState room) = Some w \<and>
               players_right (gameState room) = Some P))"
  using join
  by (auto simp: addPlayer_def Let_def cleanInvalidMapping_def createPlayer_def
      split: option.splits list.splits if_splits prod.splits)

text \<open>
  The theorem at \<open>demoQueued\<close>: \<open>carol\<close> joins again, and \<open>dave\<close> is paired with her.
\<close>

theorem addPlayer_never_pairs_with_self_witness:
  "existingPlayer demoQueued ''carol'' = None \<and>
   waitingPlayers demoQueued \<noteq> [] \<and> hd (waitingPlayers demoQueued) = ''carol'' \<and>
   fst (addPlayer ''1700000000900'' ''qqqqqqqqq'' 0.6 0.4 ''carol'' demoQueued) = None \<and>
   rooms (snd (addPlayer ''1700000000900'' ''qqqqqqqqq'' 0.6 0.4 ''carol'' demoQueued)) =
     rooms demoQueued \<and>
   waitingPlayers (snd (addPlayer ''1700000000900'' ''qqqqqqqqq'' 0.6 0.4 ''carol'' demoQueued)) =
     [''carol''] \<and>
   (\<exists>r w. fst (addPlayer ''1700000000901'' ''rrrrrrrrr'' 0.6 0.4 ''dave'' demoQueued) = Some r \<and>
      isNewGame r \<and> waitingPlayerId r = Some w \<and> w \<noteq> ''dave'')"
proof -
  have h1: "existingPlayer demoQueued ''carol'' = None"
    and h2: "waitingPlayers demoQueued \<noteq> []"
    and h3: "hd (waitingPlayers demoQueued) = ''carol''"
    and h4: "tl (waitingPlayers demoQueued) @ [''carol''] = [''carol'']"
    by (simp_all add: existingPlayer_def demoQueued_def demoPlaying_def)
  have h5: "fst (addPlayer ''1700000000901'' ''rrrrrrrrr'' 0.6 0.4 ''dave'' demoQueued) =
      Some \<lparr>res_roomId = ''room_1700000000901_rrrrrrrrr'', res_side = Right,
            isNewGame = True, waitingPlayerId = Some ''carol''\<rparr>"
    by (simp add: addPlayer_def existingPlayer_def cleanInvalidMapping_def demoQueued_def
        demoPlaying_def Let_def newRoomId_def)
  have e1: "addPlayer ''1700000000900'' ''qqqqqqqqq'' 0.6 0.4 ''carol'' demoQueued =
      (fst (addPlayer ''1700000000900'' ''qqqqqqqqq'' 0.6 0.4 ''carol'' demoQueued),
       snd (addPlayer ''1700000000900'' ''qqqqqqqqq'' 0.6 0.4 ''carol'' demoQueued))"
    and e2: "addPlayer ''1700000000901'' ''rrrrrrrrr'' 0.6 0.4 ''dave'' demoQueued =
      (fst (addPlayer ''1700000000901'' ''rrrrrrrrr'' 0.6 0.4 ''dave'' demoQueued),
       snd (addPlayer ''1700000000901'' ''rrrrrrrrr'' 0.6 0.4 ''dave'' demoQueued))"
    by simp_all
  from addPlayer_never_pairs_with_self [OF e1] addPlayer_never_pairs_with_self [OF e2]
  show ?thesis
    using h1 h2 h3 h4 h5 by auto
qed

subsection \<open>Mappings to a room that is gone\<close>

text \<open>
  Claim C9, as amended. Let the id \<open>P\<close> be mapped to a room id, other than the empty
  string, that is not in the registry. Then \<open>addPlayer\<close> does exactly what it does on the
  state without this mapping; \<open>removePlayer\<close>, when \<open>P\<close> is not in the queue, deletes the
  mapping, changes nothing else and returns \<open>null\<close>; \<open>movePaddle\<close> returns \<open>null\<close> and
  changes nothing: it leaves the mapping where it is.
\<close>

theorem stale_mapping_handling:
  assumes stale: "playerToRoom s P = Some rid" "rid \<noteq> []" "rooms s rid = None"
  shows "addPlayer now sfx r1 r2 P s =
           addPlayer now sfx r1 r2 P (s\<lparr>playerToRoom := (playerToRoom s)(P := None)\<rparr>) \<and>
         (P \<notin> set (waitingPlayers s) \<longrightarrow>
            removePlayer P s = (None, s\<lparr>playerToRoom := (playerToRoom s)(P := None)\<rparr>)) \<and>
         movePaddle P d s = (None, s)"
  using stale
  by (simp add: addPlayer_def existingPlayer_def cleanInvalidMapping_def removePlayer_def
      movePaddle_def)

text \<open>
  The theorem at \<open>demoStale\<close>.
\<close>

theorem stale_mapping_handling_witness:
  "playerToRoom demoStale ''dave'' = Some ''room_gone'' \<and> ''room_gone'' \<noteq> [] \<and>
   rooms demoStale ''room_gone'' = None \<and> ''dave'' \<notin> set (waitingPlayers demoStale) \<and>
   addPlayer ''1700000000900'' ''qqqqqqqqq'' 0.6 0.4 ''dave'' demoStale =
     addPlayer ''1700000000900'' ''qqqqqqqqq'' 0.6 0.4 ''dave''
       (demoStale\<lparr>playerToRoom := (playerToRoom demoStale)(''dave'' := None)\<rparr>) \<and>
   removePlayer ''dave'' demoStale =
     (None, demoStale\<lparr>playerToRoom := (playerToRoom demoStale)(''dave'' := None)\<rparr>) \<and>
   movePaddle ''dave'' Down demoStale = (None, demoStale)"
proof -
  have h1: "playerToRoom demoStale ''dave'' = Some ''room_gone''"
    and h2: "''room_gone'' \<noteq> []"
    and h3: "rooms demoStale ''room_gone'' = None"
    and h4: "''dave'' \<notin> set (waitingPlayers demoStale)"
    by (simp_all add: demoStale_def newGameManager_def)
  from stale_mapping_handling [OF h1 h2 h3, of "''1700000000900''" "''qqqqqqqqq''" "0.6" "0.4" Down]
  show ?thesis
    using h1 h2 h3 h4 by simp
qed

text \<open>
  Claim C9 as stated fails for \<open>movePaddle\<close>: in \<open>demoStale\<close> the mapping of \<open>dave\<close> is
  still there after the call.
\<close>

theorem movePaddle_keeps_stale_mapping_counterexample:
  "playerToRoom demoStale ''dave'' = Some ''room_gone'' \<and>
   rooms demoStale ''room_gone'' = None \<and>
   fst (movePaddle ''dave'' Up demoStale) = None \<and>
   playerToRoom (snd (movePaddle ''dave'' Up demoStale)) ''dave'' = Some ''room_gone''"
  by (simp add: movePaddle_def demoStale_def newGameManager_def)

subsection \<open>The frame of a paddle move\<close>

text \<open>
  Claim C10. Let \<open>P\<close> be a connected player of the room it is mapped to, its slot
  referring to it (as it does for every connected player of a state that satisfies the
  invariant, by \<open>managerInv_connected_slot\<close>). Then \<open>movePaddle\<close> returns the room id and
  changes nothing but the height of the paddle of \<open>P\<close>, which moves by 8 or stops at 0 or
  320: the queue, the mappings, the timers, every other room, the game state of the room
  (ball, slots, active flag, winner), every other player of the room, and the id, side,
  score, connected flag and paddle x of \<open>P\<close> are as before.
\<close>

theorem movePaddle_frame:
  assumes mapped: "playerToRoom s P = Some rid" "rid \<noteq> []"
    and room: "rooms s rid = Some room"
    and player: "map_of (players room) P = Some pl" "connected pl"
    and slot: "slotOf (side pl) (gameState room) = Some P"
    and move: "movePaddle P d s = (res, s')"
  shows "res = Some rid \<and>
         waitingPlayers s' = waitingPlayers s \<and> playerToRoom s' = playerToRoom s \<and>
         intervals s' = intervals s \<and>
         (\<exists>room' pl'.
            rooms s' = (rooms s)(rid \<mapsto> room') \<and>
            gameState room' = gameState room \<and> room_id room' = room_id room \<and>
            gameLoopIntervalId room' = gameLoopIntervalId room \<and>
            map fst (players room') = map fst (players room) \<and>
            (\<forall>k. k \<noteq> P \<longrightarrow> map_of (players room') k = map_of (players room) k) \<and>
            map_of (players room') P = Some pl' \<and>
            pl' = pl\<lparr>paddle := (paddle pl)\<lparr>paddle_y := paddle_y (paddle pl')\<rparr>\<rparr> \<and>
            paddle_y (paddle pl') =
              (case d of
                 Up \<Rightarrow> if paddle_y (paddle pl) - 8 \<ge> 0 then paddle_y (paddle pl) - 8 else 0
               | Down \<Rightarrow> if paddle_y (paddle pl) + 8 \<le> 320 then paddle_y (paddle pl) + 8 else 320))"
proof -
  define y where "y = (case d of
      Up \<Rightarrow> max 0 (paddle_y (paddle pl) - PADDLE_SPEED)
    | Down \<Rightarrow> min (GAME_HEIGHT - PADDLE_HEIGHT) (paddle_y (paddle pl) + PADDLE_SPEED))"
  define pl' where "pl' = pl\<lparr>paddle := (paddle pl)\<lparr>paddle_y := y\<rparr>\<rparr>"
  define room' where "room' = room\<lparr>players := AList.update P pl' (players room)\<rparr>"
  have g: "setSlot (side pl) (Some P) (gameState room) = gameState room"
    using slot by (cases "side pl") (auto simp: setSlot_def)
  have "movePaddle P d s = (Some rid, s\<lparr>rooms := (rooms s)(rid \<mapsto> room')\<rparr>)"
    using mapped room player g
    by (simp add: movePaddle_def Let_def room'_def pl'_def y_def)
  with move have res: "res = Some rid" and s': "s' = s\<lparr>rooms := (rooms s)(rid \<mapsto> room')\<rparr>"
    by simp_all
  have keys: "map fst (players room') = map fst (players room)"
    using player(1) by (intro playerShape_keys) (simp add: room'_def pl'_def playerShape_update)
  have yv: "y = (case d of
                 Up \<Rightarrow> if paddle_y (paddle pl) - 8 \<ge> 0 then paddle_y (paddle pl) - 8 else 0
               | Down \<Rightarrow> if paddle_y (paddle pl) + 8 \<le> 320 then paddle_y (paddle pl) + 8 else 320)"
    unfolding y_def by (cases d) (auto simp: game_consts)
  have py: "paddle_y (paddle pl') = y" by (simp add: pl'_def)
  have c1: "rooms s' = (rooms s)(rid \<mapsto> room')" by (simp add: s')
  have c2: "gameState room' = gameState room" "room_id room' = room_id room"
    "gameLoopIntervalId room' = gameLoopIntervalId room"
    by (simp_all add: room'_def)
  have c3: "\<forall>k. k \<noteq> P \<longrightarrow> map_of (players room') k = map_of (players room) k"
    by (simp add: room'_def map_of_update_cases)
  have c4: "map_of (players room') P = Some pl'"
    by (simp add: room'_def map_of_update_cases)
  have c5: "pl' = pl\<lparr>paddle := (paddle pl)\<lparr>paddle_y := paddle_y (paddle pl')\<rparr>\<rparr>"
    unfolding py by (simp add: pl'_def)
  have c6: "paddle_y (paddle pl') =
              (case d of
                 Up \<Rightarrow> if paddle_y (paddle pl) - 8 \<ge> 0 then paddle_y (paddle pl) - 8 else 0
               | Down \<Rightarrow> if paddle_y (paddle pl) + 8 \<le> 320 then paddle_y (paddle pl) + 8 else 320)"
    unfolding py by (rule yv)
  have c0: "waitingPlayers s' = waitingPlayers s" "playerToRoom s' = playerToRoom s"
    "intervals s' = intervals s"
    by (simp_all add: s')
  from res c0 c1 c2 keys c3 c4 c5 c6 show ?thesis by blast
qed

text \<open>
  The theorem at \<open>demoPlaying\<close>: \<open>alice\<close> moves up from 160 to 152.
\<close>

theorem movePaddle_frame_witness:
  "playerToRoom demoPlaying ''alice'' = Some demoRoomId \<and> demoRoomId \<noteq> [] \<and>
   rooms demoPlaying demoRoomId = Some demoRoom \<and>
   map_of (players demoRoom) ''alice'' = Some (createPlayer ''alice'' Left) \<and>
   connected (createPlayer ''alice'' Left) \<and>
   slotOf (side (createPlayer ''alice'' Left)) (gameState demoRoom) = Some ''alice'' \<and>
   fst (movePaddle ''alice'' Up demoPlaying) = Some demoRoomId \<and>
   waitingPlayers (snd (movePaddle ''alice'' Up demoPlaying)) = waitingPlayers demoPlaying \<and>
   playerToRoom (snd (movePaddle ''alice'' Up demoPlaying)) = playerToRoom demoPlaying \<and>
   (\<exists>room' pl'.
      rooms (snd (movePaddle ''alice'' Up demoPlaying)) = (rooms demoPlaying)(demoRoomId \<mapsto> room') \<and>
      gameState room' = gameState demoRoom \<and>
      map_of (players room') ''bob'' = map_of (players demoRoom) ''bob'' \<and>
      map_of (players room') ''alice'' = Some pl' \<and>
      paddle_y (paddle pl') = 152)"
proof -
  have h1: "playerToRoom demoPlaying ''alice'' = Some demoRoomId"
    and h2: "demoRoomId \<noteq> []"
    and h3: "rooms demoPlaying demoRoomId = Some demoRoom"
    by (simp_all add: demoPlaying_def demoRoomId_def)
  have h4: "map_of (players demoRoom) ''alice'' = Some (createPlayer ''alice'' Left)"
    by (simp add: demoRoom_def)
  have h5: "connected (createPlayer ''alice'' Left)"
    and h6: "slotOf (side (createPlayer ''alice'' Left)) (gameState demoRoom) = Some ''alice''"
    and y: "paddle_y (paddle (createPlayer ''alice'' Left)) = 160"
    by (simp_all add: createPlayer_def demoRoom_def game_consts)
  from movePaddle_frame [OF h1 h2 h3 h4 h5 h6 surjective_pairing, of Up]
  show ?thesis
    unfolding y using h1 h2 h3 h4 h5 h6 by auto
qed

end
